theory Spec2Isabelle
  imports Complex_Main "HOL-Library.Monad_Syntax" "HOL-Library.Multiset"
begin

section \<open>Tensors of the numerical runtime\<close>

text \<open>
  A tensor is its shape and its elements in row-major (contiguous) order, the logical
  order every operation of the runtime is defined on.  Elements are real numbers: the
  arithmetic of the model is exact.  An operation that raises in the runtime returns
  \<open>None\<close>.
\<close>

datatype tensor = Tensor (shape: "nat list") (data: "real list")

definition wf_tensor :: "tensor \<Rightarrow> bool" where
  "wf_tensor t \<longleftrightarrow> length (data t) = prod_list (shape t)"

text \<open>Row-major position of a multi-index, and the multi-index of a position.\<close>

fun flat :: "nat list \<Rightarrow> nat list \<Rightarrow> nat" where
  "flat (d # ds) (i # is) = i * prod_list ds + flat ds is"
| "flat _ _ = 0"

fun unflat :: "nat list \<Rightarrow> nat \<Rightarrow> nat list" where
  "unflat [] k = []"
| "unflat (d # ds) k = (k div prod_list ds) # unflat ds (k mod prod_list ds)"

fun valid :: "nat list \<Rightarrow> nat list \<Rightarrow> bool" where
  "valid [] [] = True"
| "valid (d # ds) (i # is) = (i < d \<and> valid ds is)"
| "valid _ _ = False"

definition elem :: "tensor \<Rightarrow> nat list \<Rightarrow> real" where
  "elem t idx = data t ! flat (shape t) idx"

definition tabulate :: "nat list \<Rightarrow> (nat list \<Rightarrow> real) \<Rightarrow> tensor" where
  "tabulate s f = Tensor s (map (\<lambda>k. f (unflat s k)) [0..<prod_list s])"

definition zeros :: "nat list \<Rightarrow> tensor" where
  "zeros s = Tensor s (replicate (prod_list s) 0)"

subsection \<open>Views: reshape, flatten, unsqueeze, squeeze\<close>

text \<open>\<open>t.reshape(s)\<close> with an explicit target shape: the element count must agree.\<close>

definition reshape :: "nat list \<Rightarrow> tensor \<Rightarrow> tensor option" where
  "reshape s t = (if prod_list s = length (data t) then Some (Tensor s (data t)) else None)"

text \<open>\<open>t.flatten(a, b)\<close> merges the dimensions \<open>a..b\<close>.\<close>

definition flatten :: "nat \<Rightarrow> nat \<Rightarrow> tensor \<Rightarrow> tensor option" where
  "flatten a b t =
     (let s = shape t in
      if a \<le> b \<and> b < length s
      then Some (Tensor (take a s @ [prod_list (take (b + 1 - a) (drop a s))] @ drop (b + 1) s)
                        (data t))
      else None)"

text \<open>\<open>t.unsqueeze(0)\<close>.\<close>

definition unsqueeze0 :: "tensor \<Rightarrow> tensor" where
  "unsqueeze0 t = Tensor (1 # shape t) (data t)"

text \<open>
  \<open>t.squeeze(-k)\<close>: the dimension \<open>k\<close> places from the end is removed when its size is 1,
  the tensor is returned as it is otherwise; a rank below \<open>k\<close> raises, except that a
  tensor without dimensions accepts \<open>-1\<close>.
\<close>

definition squeeze_neg :: "nat \<Rightarrow> tensor \<Rightarrow> tensor option" where
  "squeeze_neg k t =
     (let s = shape t; r = length s in
      if k = 0 then None
      else if r < k then (if r = 0 \<and> k = 1 then Some t else None)
      else if s ! (r - k) = 1 then Some (Tensor (take (r - k) s @ drop (r - k + 1) s) (data t))
      else Some t)"

subsection \<open>Permutations of dimensions\<close>

fun index_of :: "nat \<Rightarrow> nat list \<Rightarrow> nat" where
  "index_of d [] = 0"
| "index_of d (x # xs) = (if x = d then 0 else Suc (index_of d xs))"

text \<open>
  \<open>t.permute(dims)\<close>: dimension \<open>k\<close> of the result is dimension \<open>dims ! k\<close> of \<open>t\<close>, so the
  element at \<open>j\<close> of the result is the element of \<open>t\<close> whose index has \<open>j ! k\<close> at place
  \<open>dims ! k\<close>.
\<close>

definition unpermute :: "nat list \<Rightarrow> nat list \<Rightarrow> nat list" where
  "unpermute dims j = map (\<lambda>d. j ! index_of d dims) [0..<length dims]"

definition permute :: "nat list \<Rightarrow> tensor \<Rightarrow> tensor option" where
  "permute dims t =
     (if sort dims = [0..<length (shape t)]
      then Some (tabulate (map (\<lambda>d. shape t ! d) dims) (\<lambda>j. elem t (unpermute dims j)))
      else None)"

text \<open>\<open>t.transpose(a, b)\<close> exchanges two dimensions.\<close>

definition transpose_dims :: "nat \<Rightarrow> nat \<Rightarrow> tensor \<Rightarrow> tensor option" where
  "transpose_dims a b t =
     (let r = length (shape t) in
      if a < r \<and> b < r then permute (([0..<r])[a := b, b := a]) t else None)"

subsection \<open>Joining and splitting along the first dimension\<close>

text \<open>\<open>torch.cat(ts, dim=0)\<close>: an empty list raises, and so do differing trailing shapes.\<close>

definition cat0 :: "tensor list \<Rightarrow> tensor option" where
  "cat0 ts =
     (case ts of
        [] \<Rightarrow> None
      | t # _ \<Rightarrow>
          if shape t \<noteq> [] \<and> list_all (\<lambda>u. shape u \<noteq> [] \<and> tl (shape u) = tl (shape t)) ts
          then Some (Tensor (sum_list (map (\<lambda>u. hd (shape u)) ts) # tl (shape t))
                            (concat (map data ts)))
          else None)"

text \<open>Iterating over a tensor yields its slices along the first dimension.\<close>

definition unbind0 :: "tensor \<Rightarrow> tensor list option" where
  "unbind0 t =
     (case shape t of
        [] \<Rightarrow> None
      | d # ds \<Rightarrow>
          Some (map (\<lambda>i. Tensor ds (take (prod_list ds) (drop (i * prod_list ds) (data t))))
                    [0..<d]))"

text \<open>
  \<open>t.repeat(n, 1)\<close>: the tensor is read with two dimensions (a vector as one row) and
  tiled \<open>n\<close> times along the first.
\<close>

definition repeat_rows :: "nat \<Rightarrow> tensor \<Rightarrow> tensor option" where
  "repeat_rows n t =
     (case shape t of
        [] \<Rightarrow> Some (Tensor [n, 1] (concat (replicate n (data t))))
      | [d] \<Rightarrow> Some (Tensor [n, d] (concat (replicate n (data t))))
      | [a, b] \<Rightarrow> Some (Tensor [n * a, b] (concat (replicate n (data t))))
      | _ \<Rightarrow> None)"

subsection \<open>Reductions\<close>

text \<open>
  \<open>t.mean(dim=d, keepdim=False)\<close>.  The forward pass takes no mean over a dimension of
  size 0 (where the runtime returns NaN, and the quotient below is 0).
\<close>

definition mean_dim :: "nat \<Rightarrow> tensor \<Rightarrow> tensor option" where
  "mean_dim d t =
     (let s = shape t in
      if d < length s
      then Some (tabulate (take d s @ drop (d + 1) s)
                   (\<lambda>j. sum_list (map (\<lambda>k. elem t (take d j @ k # drop d j)) [0..<s ! d])
                        / real (s ! d)))
      else None)"

text \<open>\<open>t.sum(dim=d, keepdim=True)\<close>.\<close>

definition sum_dim_keep :: "nat \<Rightarrow> tensor \<Rightarrow> tensor option" where
  "sum_dim_keep d t =
     (let s = shape t in
      if d < length s
      then Some (tabulate (s[d := 1]) (\<lambda>j. sum_list (map (\<lambda>k. elem t (j[d := k])) [0..<s ! d])))
      else None)"

text \<open>
  \<open>nn.AdaptiveAvgPool2d((1, 1))\<close>: the mean over the last two dimensions of a batched
  \<open>(n, c, h, w)\<close> or unbatched \<open>(c, h, w)\<close> input.
\<close>

definition AdaptiveAvgPool2d_1x1 :: "tensor \<Rightarrow> tensor option" where
  "AdaptiveAvgPool2d_1x1 t =
     (case shape t of
        [n, c, h, w] \<Rightarrow>
          Some (tabulate [n, c, 1, 1]
                  (\<lambda>j. sum_list (map (\<lambda>k. elem t [j ! 0, j ! 1, k div w, k mod w]) [0..<h * w])
                       / real (h * w)))
      | [c, h, w] \<Rightarrow>
          Some (tabulate [c, 1, 1]
                  (\<lambda>j. sum_list (map (\<lambda>k. elem t [j ! 0, k div w, k mod w]) [0..<h * w])
                       / real (h * w)))
      | _ \<Rightarrow> None)"

subsection \<open>Arithmetic with broadcasting\<close>

text \<open>
  Shapes are aligned at their last dimension; two sizes are compatible when they are
  equal or one of them is 1.
\<close>

fun broadcast_rev :: "nat list \<Rightarrow> nat list \<Rightarrow> nat list option" where
  "broadcast_rev [] ys = Some ys"
| "broadcast_rev xs [] = Some xs"
| "broadcast_rev (x # xs) (y # ys) =
     (if x = y \<or> y = 1 then map_option ((#) x) (broadcast_rev xs ys)
      else if x = 1 then map_option ((#) y) (broadcast_rev xs ys)
      else None)"

definition broadcast_shape :: "nat list \<Rightarrow> nat list \<Rightarrow> nat list option" where
  "broadcast_shape a b = map_option rev (broadcast_rev (rev a) (rev b))"

text \<open>The index of an operand of shape \<open>s\<close> that the result index \<open>j\<close> reads.\<close>

definition bidx :: "nat list \<Rightarrow> nat list \<Rightarrow> nat list" where
  "bidx s j = map2 (\<lambda>d i. if d = 1 then 0 else i) s (drop (length j - length s) j)"

definition binop :: "(real \<Rightarrow> real \<Rightarrow> real) \<Rightarrow> tensor \<Rightarrow> tensor \<Rightarrow> tensor option" where
  "binop f a b =
     (case broadcast_shape (shape a) (shape b) of
        None \<Rightarrow> None
      | Some s \<Rightarrow> Some (tabulate s (\<lambda>j. f (elem a (bidx (shape a) j)) (elem b (bidx (shape b) j)))))"

definition add :: "tensor \<Rightarrow> tensor \<Rightarrow> tensor option" where
  "add = binop (+)"

definition mul :: "tensor \<Rightarrow> tensor \<Rightarrow> tensor option" where
  "mul = binop (*)"

text \<open>
  \<open>t * c\<close> and \<open>c / t\<close> for a Python number \<open>c\<close>.  Where an element of \<open>t\<close> is zero
  the runtime returns an infinity, which the real numbers do not have, and the quotient
  of the model is 0: what is proved about the values of a division assumes a nonzero
  divisor.
\<close>

definition mul_scalar :: "tensor \<Rightarrow> real \<Rightarrow> tensor" where
  "mul_scalar t c = Tensor (shape t) (map (\<lambda>x. x * c) (data t))"

definition scalar_div :: "real \<Rightarrow> tensor \<Rightarrow> tensor" where
  "scalar_div c t = Tensor (shape t) (map (\<lambda>x. c / x) (data t))"

text \<open>
  \<open>int(math.sqrt(n))\<close> and \<open>int(n ** .5)\<close>: the integer square root, for the token counts
  the model works on.
\<close>

function isqrt_from :: "nat \<Rightarrow> nat \<Rightarrow> nat" where
  "isqrt_from n k = (if (k + 1) * (k + 1) \<le> n then isqrt_from n (k + 1) else k)"
  by pat_completeness auto
termination
  by (relation "measure (\<lambda>(n, k). n - k)") auto

definition isqrt :: "nat \<Rightarrow> nat" where
  "isqrt n = isqrt_from n 0"

section \<open>The model \<open>SupervisedMAE\<close>\<close>

text \<open>
  The attributes of an instance that the forward pass reads.  A submodule is the function
  it computes with its current parameters; \<open>None\<close> is a failure raised by the runtime.
  A cross-attention block takes the query and the key/value sequence; an exemplar block
  (built with \<open>return_attn=True\<close>) also returns its attention scores.
\<close>

record model =
  patch_embed :: "tensor \<Rightarrow> tensor option"
  pos_embed :: tensor
  blocks :: "(tensor \<Rightarrow> tensor option) list"
  norm :: "tensor \<Rightarrow> tensor option"
  decoder_embed :: "tensor \<Rightarrow> tensor option"
  decoder_pos_embed :: tensor
  shot_token :: tensor
  decoder_proj1 :: "tensor \<Rightarrow> tensor option"
  decoder_proj2 :: "tensor \<Rightarrow> tensor option"
  decoder_proj3 :: "tensor \<Rightarrow> tensor option"
  decoder_proj4 :: "tensor \<Rightarrow> tensor option"
  decoder_proj_final :: "tensor \<Rightarrow> tensor option"
  decoder_depth :: nat
  decoder_blocks :: "(tensor \<Rightarrow> tensor \<Rightarrow> tensor option) list"
  exemplar_blocks :: "(tensor \<Rightarrow> tensor \<Rightarrow> (tensor \<times> tensor) option) list"
  exemplar_weights :: "tensor \<Rightarrow> tensor option"
  decoder_num_heads :: nat
  decoder_norm :: "tensor \<Rightarrow> tensor option"
  exemplar_norm :: "tensor \<Rightarrow> tensor option"
  decode_head0 :: "tensor \<Rightarrow> tensor option"
  decode_head1 :: "tensor \<Rightarrow> tensor option"
  decode_head2 :: "tensor \<Rightarrow> tensor option"
  decode_head3 :: "tensor \<Rightarrow> tensor option"

text \<open>\<open>self.pool = nn.AdaptiveAvgPool2d((1, 1))\<close> has no parameters.\<close>

definition pool :: "tensor \<Rightarrow> tensor option" where
  "pool = AdaptiveAvgPool2d_1x1"

subsection \<open>\<open>forward_encoder\<close> (lines 156 to 168)\<close>

fun apply_blocks :: "(tensor \<Rightarrow> tensor option) list \<Rightarrow> tensor \<Rightarrow> tensor option" where
  "apply_blocks [] x = Some x"
| "apply_blocks (blk # blks) x = do { x \<leftarrow> blk x; apply_blocks blks x }"

definition forward_encoder :: "model \<Rightarrow> tensor \<Rightarrow> tensor option" where
  "forward_encoder m x = do {
     x \<leftarrow> patch_embed m x;
     x \<leftarrow> add x (pos_embed m);
     x \<leftarrow> apply_blocks (blocks m) x;
     norm m x
   }"

subsection \<open>\<open>forward_decoder\<close>: the exemplar encoder\<close>

text \<open>
  The loop over the shots (lines 183 to 193): \<open>cnt\<close> counts the iterations and the loop is left at the first
  shot beyond \<open>shot_num\<close>.  The state is the list \<open>y1\<close> and the variables \<open>N\<close> and \<open>C\<close>,
  which each processed shot overwrites from the shape of its feature map.
\<close>

fun exemplar_loop ::
  "model \<Rightarrow> int \<Rightarrow> tensor list \<Rightarrow> int \<Rightarrow> nat \<Rightarrow> nat \<Rightarrow> tensor list
     \<Rightarrow> (tensor list \<times> nat \<times> nat) option" where
  "exemplar_loop m shot_num [] cnt N C y1 = Some (y1, N, C)"
| "exemplar_loop m shot_num (yi # ys) cnt N C y1 =
     (let cnt = cnt + 1 in
      if cnt > shot_num then Some (y1, N, C)
      else do {
        yi \<leftarrow> decoder_proj1 m yi;
        yi \<leftarrow> decoder_proj2 m yi;
        yi \<leftarrow> decoder_proj3 m yi;
        yi \<leftarrow> decoder_proj_final m yi;
        (N, C) \<leftarrow> (case shape yi of [n, c, _, _] \<Rightarrow> Some (n, c) | _ \<Rightarrow> None);
        exemplar_loop m shot_num ys cnt N C (y1 @ [unsqueeze0 yi])
      })"

subsection \<open>\<open>forward_decoder\<close>: the exemplar aggregator\<close>

text \<open>
  The summary of one attention score tensor (line 201):
  \<open>attn.permute(0, 2, 1, 3).reshape(N, shot_num * 8 * 8, heads, shot_num, 8 * 8)
   .mean(dim=3, keepdim=False).flatten(2, 3).unsqueeze(0)\<close>.
\<close>

definition attn_summary :: "nat \<Rightarrow> nat \<Rightarrow> nat \<Rightarrow> tensor \<Rightarrow> tensor option" where
  "attn_summary N shot_num heads attn = do {
     a \<leftarrow> permute [0, 2, 1, 3] attn;
     a \<leftarrow> reshape [N, shot_num * 8 * 8, heads, shot_num, 8 * 8] a;
     a \<leftarrow> mean_dim 3 a;
     a \<leftarrow> flatten 2 3 a;
     Some (unsqueeze0 a)
   }"

text \<open>
  The loop over \<open>self.exemplar_blocks\<close> (lines 198 to 201), with queries and keys the same
  sequence.
\<close>

fun exemplar_attend ::
  "(tensor \<Rightarrow> tensor \<Rightarrow> (tensor \<times> tensor) option) list \<Rightarrow> nat \<Rightarrow> nat \<Rightarrow> nat
     \<Rightarrow> tensor \<Rightarrow> tensor list \<Rightarrow> (tensor \<times> tensor list) option" where
  "exemplar_attend [] N shot_num heads y1 attns = Some (y1, attns)"
| "exemplar_attend (blk # blks) N shot_num heads y1 attns = do {
     (y1, attn) \<leftarrow> blk y1 y1;
     a \<leftarrow> attn_summary N shot_num heads attn;
     exemplar_attend blks N shot_num heads y1 (attns @ [a])
   }"

text \<open>
  Weighting, pooling and renormalisation (lines 204 to 207):
  \<open>y1 = attns * y1\<close>,
  \<open>y1 = self.pool(y1.reshape(N * shot_num, 8, 8, 512).permute(0, 3, 1, 2)).squeeze(-1).squeeze(-1)\<close>,
  \<open>attns = 1 / attns.reshape(N * shot_num, 8 * 8).sum(dim=1, keepdim=True)\<close>,
  \<open>y1 = torch.mul(y1 * 8 * 8, attns)\<close>.
\<close>

definition weighted_pool :: "nat \<Rightarrow> nat \<Rightarrow> tensor \<Rightarrow> tensor \<Rightarrow> tensor option" where
  "weighted_pool N shot_num attns y1 = do {
     y1 \<leftarrow> mul attns y1;
     y1 \<leftarrow> reshape [N * shot_num, 8, 8, 512] y1;
     y1 \<leftarrow> permute [0, 3, 1, 2] y1;
     y1 \<leftarrow> pool y1;
     y1 \<leftarrow> squeeze_neg 1 y1;
     y1 \<leftarrow> squeeze_neg 1 y1;
     attns \<leftarrow> reshape [N * shot_num, 8 * 8] attns;
     attns \<leftarrow> sum_dim_keep 1 attns;
     mul (mul_scalar (mul_scalar y1 8) 8) (scalar_div 1 attns)
   }"

text \<open>
  The branch \<open>if shot_num > 0\<close> of lines 196 to 207, which turns the list of feature maps
  into pooled rows.
\<close>

definition exemplar_aggregate ::
  "model \<Rightarrow> nat \<Rightarrow> nat \<Rightarrow> tensor list \<Rightarrow> tensor option" where
  "exemplar_aggregate m N shot_num y1 = do {
     y1 \<leftarrow> cat0 y1;
     y1 \<leftarrow> permute [1, 0, 3, 4, 2] y1;
     y1 \<leftarrow> flatten 1 3 y1;
     (y1, attns) \<leftarrow> exemplar_attend (exemplar_blocks m) N shot_num (decoder_num_heads m) y1 [];
     y1 \<leftarrow> exemplar_norm m y1;
     attns \<leftarrow> cat0 attns;
     attns \<leftarrow> exemplar_weights m attns;
     attns \<leftarrow> mean_dim 0 attns;
     weighted_pool N shot_num attns y1
   }"

text \<open>
  The exemplar sequence handed to the decoder blocks (lines 211 to 215): the pooled rows read as
  \<open>(shot_num, N, C)\<close>, or the repeated shot token, then \<open>y.transpose(0, 1)\<close>.  Here \<open>yT\<close> is
  the crop tensor after its own transposition (the source rebinds \<open>y_\<close>), and both tests
  \<open>shot_num > 0\<close> of the source are one branch.
\<close>

definition exemplar_sequence ::
  "model \<Rightarrow> tensor \<Rightarrow> int \<Rightarrow> nat \<Rightarrow> nat \<Rightarrow> tensor list \<Rightarrow> tensor option" where
  "exemplar_sequence m yT shot_num N C y1 = do {
     y \<leftarrow> (if shot_num > 0
          then do {
            y1 \<leftarrow> exemplar_aggregate m N (nat shot_num) y1;
            reshape [nat shot_num, N, C] y1
          }
          else do {
            t \<leftarrow> repeat_rows (shape yT ! 1) (shot_token m);
            Some (unsqueeze0 t)
          });
     transpose_dims 0 1 y
   }"

subsection \<open>\<open>forward_decoder\<close>: fusion and density regression\<close>

text \<open>\<open>for blk_index in range(self.decoder_depth): x = self.decoder_blocks[blk_index](x, y)\<close>.\<close>

fun apply_decoder_blocks ::
  "(tensor \<Rightarrow> tensor \<Rightarrow> tensor option) list \<Rightarrow> nat list \<Rightarrow> tensor \<Rightarrow> tensor \<Rightarrow> tensor option" where
  "apply_decoder_blocks blks [] x y = Some x"
| "apply_decoder_blocks blks (blk_index # rest) x y =
     (if blk_index < length blks
      then do { x \<leftarrow> (blks ! blk_index) x y; apply_decoder_blocks blks rest x y }
      else None)"

text \<open>
  One stage of the regression head (lines 228 to 235): the head is applied and its result resized to twice
  the last dimension of the stage's input.  \<open>F_interpolate u n\<close> stands for
  \<open>F.interpolate(u, size=n, mode='bilinear', align_corners=False)\<close>.
\<close>

definition upsample_stage ::
  "(tensor \<Rightarrow> nat \<Rightarrow> tensor option) \<Rightarrow> (tensor \<Rightarrow> tensor option) \<Rightarrow> tensor \<Rightarrow> tensor option" where
  "upsample_stage F_interpolate head x =
     (if shape x = [] then None
      else do { u \<leftarrow> head x; F_interpolate u (last (shape x) * 2) })"

definition density_regression ::
  "(tensor \<Rightarrow> nat \<Rightarrow> tensor option) \<Rightarrow> model \<Rightarrow> tensor \<Rightarrow> tensor option" where
  "density_regression F_interpolate m x =
     (case shape x of
        [n, hw, c] \<Rightarrow>
          (let h = isqrt hw; w = h in do {
             x \<leftarrow> transpose_dims 1 2 x;
             x \<leftarrow> reshape [n, c, h, w] x;
             x \<leftarrow> upsample_stage F_interpolate (decode_head0 m) x;
             x \<leftarrow> upsample_stage F_interpolate (decode_head1 m) x;
             x \<leftarrow> upsample_stage F_interpolate (decode_head2 m) x;
             x \<leftarrow> upsample_stage F_interpolate (decode_head3 m) x;
             squeeze_neg 3 x
           })
      | _ \<Rightarrow> None)"

text \<open>
  The decoder up to \<open>self.decoder_norm\<close> (lines 172 to 221): the tokens that the regression
  head receives.  The regression head (lines 224 to 236) is \<open>density_regression\<close> above.
\<close>

definition decoder_tokens :: "model \<Rightarrow> tensor \<Rightarrow> tensor \<Rightarrow> int \<Rightarrow> tensor option" where
  "decoder_tokens m x boxes shot_num = do {
     x \<leftarrow> decoder_embed m x;
     x \<leftarrow> add x (decoder_pos_embed m);
     yT \<leftarrow> transpose_dims 0 1 boxes;
     ys \<leftarrow> unbind0 yT;
     (y1, N, C) \<leftarrow> exemplar_loop m shot_num ys 0 (shape yT ! 1) 0 [];
     y \<leftarrow> exemplar_sequence m yT shot_num N C y1;
     x \<leftarrow> apply_decoder_blocks (decoder_blocks m) [0..<decoder_depth m] x y;
     decoder_norm m x
   }"

definition forward_decoder ::
  "(tensor \<Rightarrow> nat \<Rightarrow> tensor option) \<Rightarrow> model \<Rightarrow> tensor \<Rightarrow> tensor \<Rightarrow> int \<Rightarrow> tensor option" where
  "forward_decoder F_interpolate m x boxes shot_num = do {
     x \<leftarrow> decoder_tokens m x boxes shot_num;
     density_regression F_interpolate m x
   }"

subsection \<open>\<open>forward\<close> (lines 240 to 246)\<close>

definition forward ::
  "(tensor \<Rightarrow> nat \<Rightarrow> tensor option) \<Rightarrow> model \<Rightarrow> tensor \<Rightarrow> tensor \<Rightarrow> int \<Rightarrow> tensor option" where
  "forward F_interpolate m imgs boxes shot_num = do {
     latent \<leftarrow> forward_encoder m imgs;
     forward_decoder F_interpolate m latent boxes shot_num
   }"

section \<open>Construction\<close>

text \<open>
  The options of the constructor (lines 19 to 22) that decide shapes.  The normalisation
  layer is \<open>nn.LayerNorm\<close> (the default, and the factory's choice up to its \<open>eps\<close>).
\<close>

record config =
  cfg_img_size :: nat
  cfg_patch_size :: nat
  cfg_in_chans :: nat
  cfg_embed_dim :: nat
  cfg_depth :: nat
  cfg_num_heads :: nat
  cfg_decoder_embed_dim :: nat
  cfg_decoder_depth :: nat
  cfg_decoder_num_heads :: nat
  cfg_cross_blocks :: nat

text \<open>
  The factory (lines 249 to 254); \<open>img_size\<close> and \<open>in_chans\<close> keep the constructor's
  defaults.
\<close>

definition mae_vit_base_patch16_dec512d8b :: config where
  "mae_vit_base_patch16_dec512d8b =
     \<lparr>cfg_img_size = 384, cfg_patch_size = 16, cfg_in_chans = 3,
      cfg_embed_dim = 768, cfg_depth = 12, cfg_num_heads = 12,
      cfg_decoder_embed_dim = 512, cfg_decoder_depth = 8, cfg_decoder_num_heads = 16,
      cfg_cross_blocks = 4\<rparr>"

text \<open>\<open>self.patch_embed.num_patches\<close>: the patch grid of \<open>PatchEmbed\<close> is square.\<close>

definition num_patches :: "config \<Rightarrow> nat" where
  "num_patches cfg = (cfg_img_size cfg div cfg_patch_size cfg) * (cfg_img_size cfg div cfg_patch_size cfg)"

subsection \<open>Shapes computed by the layers of the runtime\<close>

text \<open>
  A layer is known by the shapes it accepts and the shape it returns for them:
  \<open>accepts g f\<close> says that \<open>f\<close> succeeds on every well-formed tensor whose shape \<open>g\<close>
  maps to a result shape, and returns a well-formed tensor of that shape.
\<close>

definition accepts :: "(nat list \<Rightarrow> nat list option) \<Rightarrow> (tensor \<Rightarrow> tensor option) \<Rightarrow> bool" where
  "accepts g f \<longleftrightarrow>
     (\<forall>t s. wf_tensor t \<longrightarrow> g (shape t) = Some s \<longrightarrow>
        (\<exists>u. f t = Some u \<and> wf_tensor u \<and> shape u = s))"

text \<open>\<open>nn.Linear(i, o)\<close> maps the last dimension.\<close>

definition Linear_shape :: "nat \<Rightarrow> nat \<Rightarrow> nat list \<Rightarrow> nat list option" where
  "Linear_shape i o' s = (if s \<noteq> [] \<and> last s = i then Some (butlast s @ [o']) else None)"

text \<open>\<open>nn.LayerNorm(d)\<close> normalises over a last dimension of size \<open>d\<close>.\<close>

definition LayerNorm_shape :: "nat \<Rightarrow> nat list \<Rightarrow> nat list option" where
  "LayerNorm_shape d s = (if s \<noteq> [] \<and> last s = d then Some s else None)"

text \<open>
  A batched \<open>nn.Conv2d(cin, cout, kernel_size=3, stride=1, padding=1)\<close> (or the
  \<open>kernel_size=1\<close> convolution without padding) followed by layers that keep the shape
  (instance or group normalisation, ReLU): the spatial size is kept.
\<close>

definition Conv_shape :: "nat \<Rightarrow> nat \<Rightarrow> nat list \<Rightarrow> nat list option" where
  "Conv_shape cin cout s =
     (case s of
        [n, c, h, w] \<Rightarrow> if c = cin \<and> 0 < h \<and> 0 < w then Some [n, cout, h, w] else None
      | _ \<Rightarrow> None)"

text \<open>The same followed by \<open>nn.MaxPool2d(2)\<close>, which halves the spatial size.\<close>

definition ConvPool_shape :: "nat \<Rightarrow> nat \<Rightarrow> nat list \<Rightarrow> nat list option" where
  "ConvPool_shape cin cout s =
     (case s of
        [n, c, h, w] \<Rightarrow>
          if c = cin \<and> 2 \<le> h \<and> 2 \<le> w then Some [n, cout, h div 2, w div 2] else None
      | _ \<Rightarrow> None)"

text \<open>
  \<open>PatchEmbed(img_size, patch_size, in_chans, embed_dim)\<close> of the vision-transformer
  library: one token per patch of an image of the configured size.
\<close>

definition PatchEmbed_shape :: "config \<Rightarrow> nat list \<Rightarrow> nat list option" where
  "PatchEmbed_shape cfg s =
     (case s of
        [b, c, h, w] \<Rightarrow>
          if c = cfg_in_chans cfg \<and> h = cfg_img_size cfg \<and> w = cfg_img_size cfg
          then Some [b, num_patches cfg, cfg_embed_dim cfg]
          else None
      | _ \<Rightarrow> None)"

text \<open>A transformer \<open>Block(dim, ...)\<close> of the library keeps the shape of a token sequence.\<close>

definition Block_shape :: "nat \<Rightarrow> nat list \<Rightarrow> nat list option" where
  "Block_shape width s = (case s of [b, n, c] \<Rightarrow> if c = width then Some s else None | _ \<Rightarrow> None)"

text \<open>
  \<open>F.interpolate(u, size=n, mode='bilinear', align_corners=False)\<close> on a batched image
  tensor: both spatial dimensions become \<open>n\<close>.
\<close>

definition interpolate_shape :: "nat \<Rightarrow> nat list \<Rightarrow> nat list option" where
  "interpolate_shape n s =
     (case s of
        [b, c, h, w] \<Rightarrow> if 0 < h \<and> 0 < w \<and> 0 < n then Some [b, c, n, n] else None
      | _ \<Rightarrow> None)"

definition interpolates :: "(tensor \<Rightarrow> nat \<Rightarrow> tensor option) \<Rightarrow> bool" where
  "interpolates F_interpolate \<longleftrightarrow> (\<forall>n. accepts (interpolate_shape n) (\<lambda>u. F_interpolate u n))"

text \<open>
  Modelled from the spec: the class \<open>CrossAttentionBlock\<close> of \<open>models_crossvit\<close> is not
  part of the sources.  A block of width \<open>dim\<close> with \<open>heads\<close> heads takes the query
  sequence \<open>(batch, query_tokens, dim)\<close> and the key/value sequence
  \<open>(batch, key_tokens, dim)\<close> and returns the refined query sequence; its attention score
  tensor has shape \<open>(batch, heads, query_tokens, key_tokens)\<close>.
\<close>

definition CrossAttention_shape ::
  "nat \<Rightarrow> nat \<Rightarrow> nat list \<Rightarrow> nat list \<Rightarrow> (nat list \<times> nat list) option" where
  "CrossAttention_shape width heads sx sy =
     (case sx of
        [b, n, c] \<Rightarrow>
          (case sy of
             [b', n', c'] \<Rightarrow>
               if b = b' \<and> c = width \<and> c' = width \<and> 0 < heads \<and> heads dvd width
               then Some ([b, n, c], [b, heads, n, n'])
               else None
           | _ \<Rightarrow> None)
      | _ \<Rightarrow> None)"

text \<open>A block without and with \<open>return_attn=True\<close>.\<close>

definition accepts_cross ::
  "nat \<Rightarrow> nat \<Rightarrow> (tensor \<Rightarrow> tensor \<Rightarrow> tensor option) \<Rightarrow> bool" where
  "accepts_cross width heads f \<longleftrightarrow>
     (\<forall>x y sx sa. wf_tensor x \<longrightarrow> wf_tensor y \<longrightarrow>
        CrossAttention_shape width heads (shape x) (shape y) = Some (sx, sa) \<longrightarrow>
        (\<exists>u. f x y = Some u \<and> wf_tensor u \<and> shape u = sx))"

definition accepts_cross_attn ::
  "nat \<Rightarrow> nat \<Rightarrow> (tensor \<Rightarrow> tensor \<Rightarrow> (tensor \<times> tensor) option) \<Rightarrow> bool" where
  "accepts_cross_attn width heads f \<longleftrightarrow>
     (\<forall>x y sx sa. wf_tensor x \<longrightarrow> wf_tensor y \<longrightarrow>
        CrossAttention_shape width heads (shape x) (shape y) = Some (sx, sa) \<longrightarrow>
        (\<exists>u a. f x y = Some (u, a) \<and> wf_tensor u \<and> shape u = sx \<and> wf_tensor a \<and> shape a = sa))"

text \<open>
  The linear projections of a block of width \<open>dim\<close> raise on a sequence whose last
  dimension is not \<open>dim\<close>.
\<close>

definition width_ok :: "nat \<Rightarrow> nat list \<Rightarrow> bool" where
  "width_ok width s = (case rev s of [] \<Rightarrow> False | c # _ \<Rightarrow> c = width)"

definition rejects_width :: "nat \<Rightarrow> (tensor \<Rightarrow> tensor \<Rightarrow> 'a option) \<Rightarrow> bool" where
  "rejects_width width f \<longleftrightarrow>
     (\<forall>x y. \<not> (width_ok width (shape x) \<and> width_ok width (shape y)) \<longrightarrow> f x y = None)"

text \<open>
  The output of a convolution into \<open>cout\<close> channels, when it is a batched feature map,
  has \<open>cout\<close> channels.
\<close>

definition returns_channels :: "nat \<Rightarrow> (tensor \<Rightarrow> tensor option) \<Rightarrow> bool" where
  "returns_channels cout f \<longleftrightarrow>
     (\<forall>t u n c h w. f t = Some u \<longrightarrow> shape u = [n, c, h, w] \<longrightarrow> c = cout)"

subsection \<open>\<open>__init__\<close>: the submodules of an instance\<close>

text \<open>
  \<open>constructed cfg m\<close>: the attributes of \<open>m\<close> are those that \<open>__init__\<close> (lines 27 to 120)
  builds for the options \<open>cfg\<close>, whatever their parameter values.  The width 512 of the
  shot token, of the exemplar blocks and of \<open>exemplar_norm\<close> is written in the source, not
  taken from \<open>decoder_embed_dim\<close>.  The \<open>nn.InstanceNorm2d(512)\<close> of \<open>decoder_proj_final\<close> has no
  parameters and accepts any number of channels.  Nothing is required of \<open>decoder_proj4\<close>.
\<close>

definition constructed :: "config \<Rightarrow> model \<Rightarrow> bool" where
  "constructed cfg m \<longleftrightarrow>
     accepts (PatchEmbed_shape cfg) (patch_embed m) \<and>
     wf_tensor (pos_embed m) \<and> shape (pos_embed m) = [1, num_patches cfg, cfg_embed_dim cfg] \<and>
     length (blocks m) = cfg_depth cfg \<and>
     list_all (accepts (Block_shape (cfg_embed_dim cfg))) (blocks m) \<and>
     accepts (LayerNorm_shape (cfg_embed_dim cfg)) (norm m) \<and>
     accepts (Linear_shape (cfg_embed_dim cfg) (cfg_decoder_embed_dim cfg)) (decoder_embed m) \<and>
     wf_tensor (decoder_pos_embed m) \<and>
     shape (decoder_pos_embed m) = [1, num_patches cfg, cfg_decoder_embed_dim cfg] \<and>
     wf_tensor (shot_token m) \<and> shape (shot_token m) = [512] \<and>
     accepts (ConvPool_shape 3 64) (decoder_proj1 m) \<and>
     accepts (ConvPool_shape 64 128) (decoder_proj2 m) \<and>
     accepts (ConvPool_shape 128 256) (decoder_proj3 m) \<and>
     accepts (Conv_shape 256 (cfg_decoder_embed_dim cfg)) (decoder_proj_final m) \<and>
     returns_channels (cfg_decoder_embed_dim cfg) (decoder_proj_final m) \<and>
     decoder_depth m = cfg_decoder_depth cfg \<and>
     length (decoder_blocks m) = cfg_decoder_depth cfg \<and>
     list_all (accepts_cross (cfg_decoder_embed_dim cfg) (cfg_decoder_num_heads cfg)) (decoder_blocks m) \<and>
     list_all (rejects_width (cfg_decoder_embed_dim cfg)) (decoder_blocks m) \<and>
     length (exemplar_blocks m) = cfg_cross_blocks cfg \<and>
     list_all (accepts_cross_attn 512 (cfg_decoder_num_heads cfg)) (exemplar_blocks m) \<and>
     list_all (rejects_width 512) (exemplar_blocks m) \<and>
     accepts (Linear_shape (8 * 8 * cfg_decoder_num_heads cfg) 1) (exemplar_weights m) \<and>
     decoder_num_heads m = cfg_decoder_num_heads cfg \<and>
     accepts (LayerNorm_shape (cfg_decoder_embed_dim cfg)) (decoder_norm m) \<and>
     accepts (LayerNorm_shape 512) (exemplar_norm m) \<and>
     accepts (Conv_shape (cfg_decoder_embed_dim cfg) 256) (decode_head0 m) \<and>
     accepts (Conv_shape 256 256) (decode_head1 m) \<and>
     accepts (Conv_shape 256 256) (decode_head2 m) \<and>
     accepts (Conv_shape 256 1) (decode_head3 m)"

section \<open>A concrete instance\<close>

text \<open>
  An instance for every configuration, used to show that the assumptions of the theorems
  below are satisfiable: each layer checks the shape of its input as the runtime does and
  returns zeros of the result shape.
\<close>

definition shape_layer :: "(nat list \<Rightarrow> nat list option) \<Rightarrow> tensor \<Rightarrow> tensor option" where
  "shape_layer g t = map_option zeros (g (shape t))"

definition shape_cross :: "nat \<Rightarrow> nat \<Rightarrow> tensor \<Rightarrow> tensor \<Rightarrow> tensor option" where
  "shape_cross width heads x y =
     map_option (\<lambda>(sx, sa). zeros sx) (CrossAttention_shape width heads (shape x) (shape y))"

definition shape_cross_attn :: "nat \<Rightarrow> nat \<Rightarrow> tensor \<Rightarrow> tensor \<Rightarrow> (tensor \<times> tensor) option" where
  "shape_cross_attn width heads x y =
     map_option (\<lambda>(sx, sa). (zeros sx, zeros sa)) (CrossAttention_shape width heads (shape x) (shape y))"

definition zero_interpolate :: "tensor \<Rightarrow> nat \<Rightarrow> tensor option" where
  "zero_interpolate u n = shape_layer (interpolate_shape n) u"

definition zero_model :: "config \<Rightarrow> model" where
  "zero_model cfg =
     \<lparr>patch_embed = shape_layer (PatchEmbed_shape cfg),
      pos_embed = zeros [1, num_patches cfg, cfg_embed_dim cfg],
      blocks = replicate (cfg_depth cfg) (shape_layer (Block_shape (cfg_embed_dim cfg))),
      norm = shape_layer (LayerNorm_shape (cfg_embed_dim cfg)),
      decoder_embed = shape_layer (Linear_shape (cfg_embed_dim cfg) (cfg_decoder_embed_dim cfg)),
      decoder_pos_embed = zeros [1, num_patches cfg, cfg_decoder_embed_dim cfg],
      shot_token = zeros [512],
      decoder_proj1 = shape_layer (ConvPool_shape 3 64),
      decoder_proj2 = shape_layer (ConvPool_shape 64 128),
      decoder_proj3 = shape_layer (ConvPool_shape 128 256),
      decoder_proj4 = shape_layer (Conv_shape 256 (cfg_decoder_embed_dim cfg)),
      decoder_proj_final = shape_layer (Conv_shape 256 (cfg_decoder_embed_dim cfg)),
      decoder_depth = cfg_decoder_depth cfg,
      decoder_blocks =
        replicate (cfg_decoder_depth cfg)
          (shape_cross (cfg_decoder_embed_dim cfg) (cfg_decoder_num_heads cfg)),
      exemplar_blocks =
        replicate (cfg_cross_blocks cfg) (shape_cross_attn 512 (cfg_decoder_num_heads cfg)),
      exemplar_weights = shape_layer (Linear_shape (8 * 8 * cfg_decoder_num_heads cfg) 1),
      decoder_num_heads = cfg_decoder_num_heads cfg,
      decoder_norm = shape_layer (LayerNorm_shape (cfg_decoder_embed_dim cfg)),
      exemplar_norm = shape_layer (LayerNorm_shape 512),
      decode_head0 = shape_layer (Conv_shape (cfg_decoder_embed_dim cfg) 256),
      decode_head1 = shape_layer (Conv_shape 256 256),
      decode_head2 = shape_layer (Conv_shape 256 256),
      decode_head3 = shape_layer (Conv_shape 256 1)\<rparr>"

text \<open>
  An instance for tracing the exemplar path on two batch items and two shots: its one
  exemplar block returns the queries as they are (with attention scores of the right
  shape), \<open>exemplar_norm\<close> returns its input and every gate weight is \<open>1 / 2\<close>, so that the
  exemplar sequence shows where each feature map arrives.
\<close>

definition probe_model :: model where
  "probe_model =
     (zero_model mae_vit_base_patch16_dec512d8b)
       \<lparr>exemplar_blocks := [\<lambda>x y. Some (x, zeros [2, 16, 128, 128])],
        exemplar_weights := (\<lambda>a. Some (Tensor [1, 2, 128, 1] (replicate 256 (1 / 2)))),
        exemplar_norm := Some\<rparr>"

section \<open>\<open>initialize_weights\<close> and the instance as state\<close>

text \<open>
  \<open>dst.data.copy_(src)\<close>: the source is broadcast to the shape of the destination, which
  keeps its shape; a source that cannot be broadcast to it raises.
\<close>

definition copy_into :: "tensor \<Rightarrow> tensor \<Rightarrow> tensor option" where
  "copy_into dst src =
     (if broadcast_shape (shape dst) (shape src) = Some (shape dst)
      then Some (tabulate (shape dst) (\<lambda>j. elem src (bidx (shape src) j)))
      else None)"

text \<open>
  The two positional embeddings are filled from \<open>get_2d_sincos_pos_embed(d, g)\<close>, where
  \<open>d\<close> is the last dimension of the parameter and \<open>g = int(num_patches ** .5)\<close>.  The
  generator is a function of \<open>util.pos_embed\<close>, outside the sources: it is a parameter
  here, and \<open>None\<close> is a failure of one of its assertions.  The rest of the method draws
  the values of the trainable parameters at random; they are the values the instance
  \<open>m\<close> already holds.
\<close>

definition initialize_weights ::
  "(nat \<Rightarrow> nat \<Rightarrow> tensor option) \<Rightarrow> config \<Rightarrow> model \<Rightarrow> model option" where
  "initialize_weights get_2d_sincos_pos_embed cfg m = do {
     pe \<leftarrow> (if shape (pos_embed m) = [] then None
           else get_2d_sincos_pos_embed (last (shape (pos_embed m))) (isqrt (num_patches cfg)));
     p \<leftarrow> copy_into (pos_embed m) (unsqueeze0 pe);
     dpe \<leftarrow> (if shape (decoder_pos_embed m) = [] then None
            else get_2d_sincos_pos_embed (last (shape (decoder_pos_embed m))) (isqrt (num_patches cfg)));
     dp \<leftarrow> copy_into (decoder_pos_embed m) (unsqueeze0 dpe);
     Some (m\<lparr>pos_embed := p, decoder_pos_embed := dp\<rparr>)
   }"

text \<open>
  \<open>__init__\<close>: the positional embeddings are created as zeros of their shapes, the depth
  and the number of heads are stored, and \<open>initialize_weights\<close> is called.  The submodules
  and the shot token, with their randomly drawn parameters, are those of \<open>rnd\<close>: two
  constructions with the same options differ in \<open>rnd\<close> only.
\<close>

definition SupervisedMAE ::
  "(nat \<Rightarrow> nat \<Rightarrow> tensor option) \<Rightarrow> config \<Rightarrow> model \<Rightarrow> model option" where
  "SupervisedMAE get_2d_sincos_pos_embed cfg rnd =
     initialize_weights get_2d_sincos_pos_embed cfg
       (rnd\<lparr>pos_embed := zeros [1, num_patches cfg, cfg_embed_dim cfg],
            decoder_pos_embed := zeros [1, num_patches cfg, cfg_decoder_embed_dim cfg],
            decoder_depth := cfg_decoder_depth cfg,
            decoder_num_heads := cfg_decoder_num_heads cfg\<rparr>)"

text \<open>
  A call \<open>self.forward(imgs, boxes, shot_num)\<close> as a transition of the instance: its
  result and the instance after the call.  \<open>forward\<close>, \<open>forward_encoder\<close> and
  \<open>forward_decoder\<close> assign no attribute of \<open>self\<close> and apply no in-place operation to a
  parameter (the in-place \<open>nn.ReLU\<close> layers act on the fresh output of the normalisation
  before them), so the instance is handed on as it is.
\<close>

definition forward_call ::
  "(tensor \<Rightarrow> nat \<Rightarrow> tensor option) \<Rightarrow> tensor \<Rightarrow> tensor \<Rightarrow> int \<Rightarrow> model
     \<Rightarrow> tensor option \<times> model" where
  "forward_call F_interpolate imgs boxes shot_num self =
     (forward F_interpolate self imgs boxes shot_num, self)"

text \<open>A generator that returns zeros of the generator's result shape.\<close>

definition zero_sincos :: "nat \<Rightarrow> nat \<Rightarrow> tensor option" where
  "zero_sincos d g = Some (zeros [g * g, d])"

section \<open>Facts about tensors\<close>

subsection \<open>Indexing\<close>

lemma flat_less: "valid s i \<Longrightarrow> flat s i < prod_list s"
proof (induction s i rule: valid.induct)
  case (2 d ds i "is")
  then have a: "i < d" and b: "flat ds is < prod_list ds" by simp_all
  have "i * prod_list ds + flat ds is < i * prod_list ds + prod_list ds" using b by simp
  also have "\<dots> = (i + 1) * prod_list ds" by simp
  also have "\<dots> \<le> d * prod_list ds" using a by (intro mult_le_mono1) simp
  finally show ?case by simp
qed simp_all

lemma unflat_flat: "valid s i \<Longrightarrow> unflat s (flat s i) = i"
proof (induction s i rule: valid.induct)
  case (2 d ds i "is")
  then have b: "flat ds is < prod_list ds" by (simp add: flat_less)
  with 2 show ?case by simp
qed simp_all

lemma valid_unflat: "k < prod_list s \<Longrightarrow> valid s (unflat s k)"
proof (induction s arbitrary: k)
  case (Cons d ds)
  then have pos: "0 < prod_list ds" by (cases "prod_list ds = 0") auto
  have "k div prod_list ds < d" using Cons.prems pos
    by (simp add: less_mult_imp_div_less mult.commute)
  then show ?case using Cons.IH pos by simp
qed simp

lemma flat_unflat: "k < prod_list s \<Longrightarrow> flat s (unflat s k) = k"
proof (induction s arbitrary: k)
  case (Cons d ds)
  then have pos: "0 < prod_list ds" by (cases "prod_list ds = 0") auto
  then show ?case using Cons.IH by simp
qed simp

lemma valid_length: "valid s i \<Longrightarrow> length i = length s"
  by (induction s i rule: valid.induct) simp_all

lemma valid_nth: "valid s i \<Longrightarrow> k < length s \<Longrightarrow> i ! k < s ! k"
proof (induction s i arbitrary: k rule: valid.induct)
  case (2 d ds i "is")
  then show ?case by (cases k) simp_all
qed simp_all

lemma valid_iff: "valid s i \<longleftrightarrow> length i = length s \<and> (\<forall>k < length s. i ! k < s ! k)"
proof (induction s i rule: valid.induct)
  case (2 d ds i "is")
  show ?case unfolding valid.simps 2 
    by (auto simp: nth_Cons split: nat.splits) 
qed auto

lemma shape_tabulate [simp]: "shape (tabulate s f) = s"
  by (simp add: tabulate_def)

lemma wf_tabulate [simp]: "wf_tensor (tabulate s f)"
  by (simp add: tabulate_def wf_tensor_def)

lemma elem_tabulate: "valid s i \<Longrightarrow> elem (tabulate s f) i = f i"
  by (simp add: tabulate_def elem_def flat_less unflat_flat)

lemma tabulate_cong: "(\<And>i. valid s i \<Longrightarrow> f i = g i) \<Longrightarrow> tabulate s f = tabulate s g"
  by (simp add: tabulate_def valid_unflat)

lemma tabulate_elem: "wf_tensor t \<Longrightarrow> tabulate (shape t) (elem t) = t"
proof (cases t)
  case (Tensor s xs)
  assume "wf_tensor t"
  then have len: "length xs = prod_list s" using Tensor by (simp add: wf_tensor_def)
  have "map (\<lambda>k. xs ! flat s (unflat s k)) [0..<prod_list s] = xs"
    by (rule nth_equalityI) (simp_all add: len flat_unflat)
  then show ?thesis using Tensor by (simp add: tabulate_def elem_def)
qed

lemma wf_zeros [simp]: "wf_tensor (zeros s)"
  by (simp add: zeros_def wf_tensor_def)

lemma shape_zeros [simp]: "shape (zeros s) = s"
  by (simp add: zeros_def)

lemma reshape_eq:
  "wf_tensor t \<Longrightarrow> prod_list s = prod_list (shape t) \<Longrightarrow> reshape s t = Some (Tensor s (data t))"
  by (simp add: reshape_def wf_tensor_def)

subsection \<open>Lists and sums\<close>

lemma nth_concat_replicate:
  "i < n \<Longrightarrow> j < length xs \<Longrightarrow> concat (replicate n xs) ! (i * length xs + j) = xs ! j"
proof (induction n arbitrary: i)
  case (Suc n)
  show ?case
  proof (cases i)
    case 0
    then show ?thesis using Suc.prems by (simp add: nth_append)
  next
    case (Suc i')
    then have "i' < n" using Suc.prems by simp
    from Suc.IH[OF this Suc.prems(2)] show ?thesis using Suc by (simp add: nth_append)
  qed
qed simp

lemma take_drop_map_upt:
  assumes "i < d"
  shows "take P (drop (i * P) (map g [0..<d * P])) = map g [i * P..<i * P + P]"
proof -
  have "i * P + P \<le> d * P"
  proof -
    have "i * P + P = (i + 1) * P" by simp
    also have "\<dots> \<le> d * P" using assms by (intro mult_le_mono1) simp
    finally show ?thesis .
  qed
  then show ?thesis by (simp add: drop_map take_map min_def)
qed

lemma sum_list_upt: "sum_list (map f [0..<n]) = (\<Sum>k<n. f k)"
  by (simp add: interv_sum_list_conv_sum_set_nat atLeast0LessThan)

lemma row_cell_less:
  assumes "n < N" "s < S" "k < (K::nat)"
  shows "(n * S + s) * K + k < N * S * K" "n * S + s < N * S" "s * K + k < S * K"
proof -
  have a: "n * S + s < N * S"
  proof -
    have "n * S + s < n * S + S" using assms by simp
    also have "\<dots> = (n + 1) * S" by simp
    also have "\<dots> \<le> N * S" using assms by (intro mult_le_mono1) simp
    finally show ?thesis .
  qed
  have b: "r * K + k < R * K" if "r < R" for r R
  proof -
    have "r * K + k < r * K + K" using assms by simp
    also have "\<dots> = (r + 1) * K" by simp
    also have "\<dots> \<le> R * K" using that by (intro mult_le_mono1) simp
    finally show ?thesis .
  qed
  show "n * S + s < N * S" by (rule a)
  show "(n * S + s) * K + k < N * S * K" using b[OF a] .
  show "s * K + k < S * K" using b[OF assms(2)] .
qed

subsection \<open>Permutations\<close>

lemma sort_swap_upt:
  assumes "a < r" "b < r"
  shows "sort (([0..<r])[a := b, b := a]) = [0..<r]"
proof -
  have "mset (([0..<r])[a := [0..<r] ! b, b := [0..<r] ! a]) = mset [0..<r]"
    using assms by (intro mset_swap) simp_all
  then have "mset (([0..<r])[a := b, b := a]) = mset [0..<r]"
    using assms by simp
  then show ?thesis
    by (metis sorted_upt sorted_sort mset_sort sorted_sort_id properties_for_sort)
qed

lemma permute_eq:
  "sort dims = [0..<length (shape t)] \<Longrightarrow>
   permute dims t = Some (tabulate (map (\<lambda>d. shape t ! d) dims) (\<lambda>j. elem t (unpermute dims j)))"
  by (simp add: permute_def)

lemma permute_Some:
  "permute dims t = Some u \<Longrightarrow>
     sort dims = [0..<length (shape t)] \<and>
     u = tabulate (map (\<lambda>d. shape t ! d) dims) (\<lambda>j. elem t (unpermute dims j))"
  by (auto simp: permute_def split: if_splits)

lemma transpose_dims_eq:
  "transpose_dims a b t =
     (if a < length (shape t) \<and> b < length (shape t)
      then Some (tabulate (map (\<lambda>d. shape t ! d) (([0..<length (shape t)])[a := b, b := a]))
                   (\<lambda>j. elem t (unpermute (([0..<length (shape t)])[a := b, b := a]) j)))
      else None)"
  by (simp add: transpose_dims_def permute_def sort_swap_upt Let_def)

lemma transpose_dims_Some:
  "transpose_dims a b t = Some u \<Longrightarrow>
     a < length (shape t) \<and> b < length (shape t) \<and>
     u = tabulate (map (\<lambda>d. shape t ! d) (([0..<length (shape t)])[a := b, b := a]))
           (\<lambda>j. elem t (unpermute (([0..<length (shape t)])[a := b, b := a]) j))"
  by (auto simp: transpose_dims_eq split: if_splits)

lemma index_of_nth: "d \<in> set xs \<Longrightarrow> index_of d xs < length xs \<and> xs ! index_of d xs = d"
  by (induction xs) auto

lemma perm_mem:
  assumes "sort dims = [0..<r]" "k < r"
  shows "k \<in> set dims"
proof -
  have "set dims = set (sort dims)" by simp
  then show ?thesis using assms by simp
qed

lemma perm_length:
  assumes "sort dims = [0..<r]"
  shows "length dims = r"
proof -
  have "length dims = length (sort dims)" by simp
  then show ?thesis using assms by simp
qed

lemma valid_unpermute:
  assumes p: "sort dims = [0..<length s]" and v: "valid (map (\<lambda>d. s ! d) dims) j"
  shows "valid s (unpermute dims j)"
proof -
  have len: "length dims = length s" using p by (rule perm_length)
  have lj: "length j = length dims" using valid_length[OF v] by simp
  have "unpermute dims j ! k < s ! k" if "k < length s" for k
  proof -
    have "k \<in> set dims" using p that by (rule perm_mem)
    then have i: "index_of k dims < length dims" "dims ! index_of k dims = k"
      using index_of_nth by auto
    have "j ! index_of k dims < map (\<lambda>d. s ! d) dims ! index_of k dims"
      using valid_nth[OF v, of "index_of k dims"] i by simp
    then show ?thesis using i that len by (simp add: unpermute_def)
  qed
  then show ?thesis by (simp add: valid_iff unpermute_def len)
qed

lemma swap01_upt:
  "2 \<le> r \<Longrightarrow> ([0..<r])[0 := 1, 1 := 0] = 1 # 0 # [2..<r]"
proof -
  assume "2 \<le> r"
  then have "[0..<r] = 0 # 1 # [2..<r]"
    by (metis One_nat_def Suc_1 Suc_le_lessD le_eq_less_or_eq less_Suc_eq_0_disj less_imp_le_nat upt_conv_Cons zero_less_Suc)
  then show ?thesis by simp
qed

lemma transpose01_shape5:
  assumes "shape t = [a, b, c, d, e]"
  shows "\<exists>u. transpose_dims 0 1 t = Some u \<and> wf_tensor u \<and> shape u = [b, a, c, d, e]"
  using assms by (simp add: transpose_dims_eq eval_nat_numeral upt_rec)

lemma transpose12_shape3:
  assumes "shape t = [a, b, c]"
  shows "\<exists>u. transpose_dims 1 2 t = Some u \<and> wf_tensor u \<and> shape u = [a, c, b]"
  using assms by (simp add: transpose_dims_eq eval_nat_numeral upt_rec)

subsection \<open>Broadcasting, joining and splitting\<close>

lemma mul_eq:
  "broadcast_shape (shape a) (shape b) = Some s \<Longrightarrow>
   mul a b = Some (tabulate s (\<lambda>j. elem a (bidx (shape a) j) * elem b (bidx (shape b) j)))"
  by (simp add: mul_def binop_def)

lemma add_eq:
  "broadcast_shape (shape a) (shape b) = Some s \<Longrightarrow>
   add a b = Some (tabulate s (\<lambda>j. elem a (bidx (shape a) j) + elem b (bidx (shape b) j)))"
  by (simp add: add_def binop_def)

lemma add_row_shape:
  assumes "wf_tensor x" "shape x = [B, n, d]" "shape p = [1, n, d]"
  obtains u where "add x p = Some u" "wf_tensor u" "shape u = [B, n, d]"
proof -
  have "broadcast_shape (shape x) (shape p) = Some [B, n, d]"
    using assms by (simp add: broadcast_shape_def)
  from add_eq[OF this] show ?thesis using that by simp
qed

lemma bidx_same: "valid s j \<Longrightarrow> bidx s j = j"
proof -
  assume v: "valid s j"
  have "map2 (\<lambda>d i. if d = 1 then 0 else i) s j = j" using v
    by (induction s j rule: valid.induct) auto
  then show ?thesis using valid_length[OF v] by (simp add: bidx_def)
qed

lemma broadcast_rev_same: "broadcast_rev s s = Some s"
  by (induction s) simp_all

lemma broadcast_shape_same: "broadcast_shape s s = Some s"
  by (simp add: broadcast_shape_def broadcast_rev_same)

lemma cat0_shape:
  assumes ne: "ts \<noteq> []" and all: "\<forall>t \<in> set ts. wf_tensor t \<and> shape t = 1 # r"
  shows "\<exists>u. cat0 ts = Some u \<and> wf_tensor u \<and> shape u = length ts # r"
proof -
  obtain t ts' where ts: "ts = t # ts'" using ne by (cases ts) auto
  have hd1: "sum_list (map (\<lambda>u. hd (shape u)) ts) = length ts"
    using all by (induction ts) simp_all
  have len: "length (concat (map data ts)) = length ts * prod_list r"
    using all by (induction ts) (simp_all add: wf_tensor_def)
  have ok: "list_all (\<lambda>u. shape u \<noteq> [] \<and> tl (shape u) = tl (shape t)) ts"
    using all ts by (simp add: list_all_iff)
  have "shape t = 1 # r" using all ts by simp
  then have "cat0 ts = Some (Tensor (length ts # r) (concat (map data ts)))"
    using ok hd1 by (simp add: cat0_def ts)
  then show ?thesis using len by (simp add: wf_tensor_def)
qed

lemma cat0_Some_shape:
  assumes "cat0 ts = Some u"
  shows "ts \<noteq> [] \<and> shape u = sum_list (map (\<lambda>t. hd (shape t)) ts) # tl (shape (hd ts))"
  using assms by (auto simp: cat0_def split: list.splits if_splits)

lemma unbind0_shape:
  assumes "wf_tensor t" "shape t = d # ds"
  shows "\<exists>ys. unbind0 t = Some ys \<and> length ys = d \<and>
           (\<forall>y \<in> set ys. wf_tensor y \<and> shape y = ds)"
proof -
  define P where "P = prod_list ds"
  have len: "length (data t) = d * P" using assms by (simp add: wf_tensor_def P_def)
  have "length (take P (drop (i * P) (data t))) = P" if "i < d" for i
  proof -
    have "i * P + P = (i + 1) * P" by simp
    also have "\<dots> \<le> d * P" using that by (intro mult_le_mono1) simp
    finally show ?thesis by (simp add: len)
  qed
  then show ?thesis using assms(2)
    by (auto simp: unbind0_def wf_tensor_def P_def)
qed

subsection \<open>The integer square root\<close>

declare isqrt_from.simps [simp del]

lemma isqrt_from_square: "k \<le> g \<Longrightarrow> isqrt_from (g * g) k = g"
proof (induction "g - k" arbitrary: k)
  case 0
  then have "k = g" by simp
  then show ?case by (subst isqrt_from.simps) simp
next
  case (Suc d)
  then have lt: "k < g" and "d = g - (k + 1)" and le: "k + 1 \<le> g" by simp_all
  then have ih: "isqrt_from (g * g) (k + 1) = g" using Suc.hyps(1) by blast
  have "(k + 1) * (k + 1) \<le> g * g" using le by (intro mult_le_mono)
  then show ?case using ih by (subst isqrt_from.simps) simp
qed

lemma isqrt_square [simp]: "isqrt (g * g) = g"
  by (simp add: isqrt_def isqrt_from_square)

section \<open>Facts about the forward pass\<close>

subsection \<open>The branch \<open>decoder_proj4\<close>\<close>

lemma exemplar_loop_proj4:
  "exemplar_loop (m\<lparr>decoder_proj4 := f\<rparr>) shot_num ys cnt N C y1 = exemplar_loop m shot_num ys cnt N C y1"
  by (induction ys arbitrary: cnt N C y1) (simp_all add: Let_def)

lemma exemplar_aggregate_proj4:
  "exemplar_aggregate (m\<lparr>decoder_proj4 := f\<rparr>) N k y1 = exemplar_aggregate m N k y1"
  by (simp add: exemplar_aggregate_def)

lemma exemplar_sequence_proj4:
  "exemplar_sequence (m\<lparr>decoder_proj4 := f\<rparr>) yT shot_num N C y1 = exemplar_sequence m yT shot_num N C y1"
  by (simp add: exemplar_sequence_def exemplar_aggregate_proj4)

lemma density_regression_proj4:
  "density_regression F_interpolate (m\<lparr>decoder_proj4 := f\<rparr>) x = density_regression F_interpolate m x"
  by (simp add: density_regression_def Let_def cong: list.case_cong)

lemma forward_decoder_proj4:
  "forward_decoder F_interpolate (m\<lparr>decoder_proj4 := f\<rparr>) x boxes shot_num =
   forward_decoder F_interpolate m x boxes shot_num"
  by (simp add: forward_decoder_def decoder_tokens_def exemplar_loop_proj4 exemplar_sequence_proj4 density_regression_proj4)

lemma forward_encoder_proj4:
  "forward_encoder (m\<lparr>decoder_proj4 := f\<rparr>) x = forward_encoder m x"
  by (simp add: forward_encoder_def)

subsection \<open>The shots that the loop reads\<close>

lemma exemplar_loop_no_shot:
  "shot_num \<le> 0 \<Longrightarrow> exemplar_loop m shot_num ys 0 N C y1 = Some (y1, N, C)"
  by (cases ys) simp_all

lemma shot_token_sequence:
  assumes tok: "wf_tensor (shot_token m)" "shape (shot_token m) = [d]"
    and rank: "2 \<le> length (shape yT)"
    and k: "shot_num \<le> 0"
  shows "\<exists>y. exemplar_sequence m yT shot_num N C y1 = Some y \<and> wf_tensor y \<and>
           shape y = [shape yT ! 1, 1, d] \<and>
           (\<forall>n < shape yT ! 1. \<forall>c < d. elem y [n, 0, c] = elem (shot_token m) [c])"
proof -
  define B where "B = shape yT ! 1"
  define r where "r = Tensor [1, B, d] (concat (replicate B (data (shot_token m))))"
  have len: "length (data (shot_token m)) = d" using tok by (simp add: wf_tensor_def)
  have rep: "repeat_rows B (shot_token m) \<bind> (\<lambda>t. Some (unsqueeze0 t)) = Some r"
    using tok by (simp add: repeat_rows_def unsqueeze0_def r_def)
  have tr: "transpose_dims 0 1 r = Some (tabulate [B, 1, d] (\<lambda>j. elem r (unpermute [1, 0, 2] j)))"
    by (simp add: transpose_dims_eq r_def numeral_2_eq_2)
  define y where "y = tabulate [B, 1, d] (\<lambda>j. elem r (unpermute [1, 0, 2] j))"
  have seq: "exemplar_sequence m yT shot_num N C y1 = Some y"
    using k rep tr by (simp add: exemplar_sequence_def B_def y_def)
  have el: "elem y [n, 0, c] = elem (shot_token m) [c]" if "n < B" "c < d" for n c
  proof -
    have "elem y [n, 0, c] = elem r [0, n, c]"
      using that by (simp add: y_def elem_tabulate unpermute_def)
    also have "\<dots> = concat (replicate B (data (shot_token m))) ! (n * length (data (shot_token m)) + c)"
      by (simp add: elem_def r_def len)
    also have "\<dots> = data (shot_token m) ! c"
      using that by (intro nth_concat_replicate) (simp_all add: len)
    also have "\<dots> = elem (shot_token m) [c]" using tok by (simp add: elem_def)
    finally show ?thesis .
  qed
  show ?thesis using seq el by (auto simp: y_def B_def)
qed

lemma unbind0_transposed_agree:
  assumes sh: "shape b1 = shape b2"
    and agree: "\<And>idx. valid (shape b1) idx \<Longrightarrow> idx ! 1 < k \<Longrightarrow> elem b1 idx = elem b2 idx"
    and t1: "transpose_dims 0 1 b1 = Some y1" and t2: "transpose_dims 0 1 b2 = Some y2"
    and u1: "unbind0 y1 = Some ys1" and u2: "unbind0 y2 = Some ys2"
  shows "length ys1 = length ys2 \<and> take k ys1 = take k ys2"
proof -
  define s where "s = shape b1"
  define r where "r = length s"
  define sw where "sw = ([0..<r])[0 := 1, 1 := 0]"
  define s' where "s' = map (\<lambda>d. s ! d) sw"
  from transpose_dims_Some[OF t1] have r2: "2 \<le> r"
    and y1: "y1 = tabulate s' (\<lambda>j. elem b1 (unpermute sw j))"
    by (auto simp: s_def r_def sw_def s'_def)
  from transpose_dims_Some[OF t2] have y2: "y2 = tabulate s' (\<lambda>j. elem b2 (unpermute sw j))"
    using sh by (auto simp: s_def r_def sw_def s'_def)
  have sw: "sw = 1 # 0 # [2..<r]" unfolding sw_def using r2 by (rule swap01_upt)
  have srt: "sort sw = [0..<length s]"
    unfolding sw_def r_def[symmetric] using r2 by (intro sort_swap_upt) simp_all
  define d where "d = s ! 1"
  define ds where "ds = s ! 0 # map (\<lambda>d. s ! d) [2..<r]"
  define P where "P = prod_list ds"
  have s'eq: "s' = d # ds" by (simp add: s'_def sw d_def ds_def)
  define g where "g b n = elem b (unpermute sw (unflat s' n))" for b n
  have ub: "unbind0 T = Some (map (\<lambda>i. Tensor ds (take P (drop (i * P) (data T)))) [0..<d])"
    if "shape T = d # ds" for T
    by (simp add: unbind0_def that P_def)
  have data: "data (tabulate s' (\<lambda>j. elem b (unpermute sw j))) = map (g b) [0..<prod_list s']" for b
    by (simp add: tabulate_def g_def)
  have ps': "prod_list s' = d * P" by (simp add: s'eq P_def)
  have ys: "unbind0 (tabulate s' (\<lambda>j. elem b (unpermute sw j)))
      = Some (map (\<lambda>i. Tensor ds (take P (drop (i * P) (map (g b) [0..<d * P])))) [0..<d])" for b
    using ub[of "tabulate s' (\<lambda>j. elem b (unpermute sw j))"] by (simp only: shape_tabulate s'eq[symmetric] data ps' simp_thms)
  have ys1: "ys1 = map (\<lambda>i. Tensor ds (take P (drop (i * P) (map (g b1) [0..<d * P])))) [0..<d]"
    using u1 ys[of b1] by (simp add: y1)
  have ys2: "ys2 = map (\<lambda>i. Tensor ds (take P (drop (i * P) (map (g b2) [0..<d * P])))) [0..<d]"
    using u2 ys[of b2] by (simp add: y2)
  have slice: "take P (drop (i * P) (map (g b1) [0..<d * P])) = take P (drop (i * P) (map (g b2) [0..<d * P]))"
    if "i < d" "i < k" for i
  proof -
    have "map (g b1) [i * P..<i * P + P] = map (g b2) [i * P..<i * P + P]"
    proof (rule map_cong[OF refl])
      fix n assume "n \<in> set [i * P..<i * P + P]"
      then have n: "i * P \<le> n" "n < i * P + P" by simp_all
      have "i * P + P = (i + 1) * P" by simp
      also have "\<dots> \<le> d * P" using that by (intro mult_le_mono1) simp
      finally have "n < prod_list s'" using n by (simp add: s'eq P_def)
      then have v: "valid s' (unflat s' n)" by (rule valid_unflat)
      have Ppos: "0 < P" using n by (cases "P = 0") auto
      have "n div P = i"
      proof -
        have "n = i * P + (n - i * P)" using n by simp
        moreover have "n - i * P < P" using n by simp
        ultimately show ?thesis by (metis div_mult_self3 div_less add.right_neutral Ppos less_numeral_extra(3))
      qed
      then have hd: "unflat s' n ! 0 = i" by (simp add: s'eq P_def)
      have vs: "valid s (unpermute sw (unflat s' n))"
        using srt v unfolding s'_def by (rule valid_unpermute)
      have lsw: "length sw = r" by (simp add: sw_def)
      have "unpermute sw (unflat s' n) ! 1 = unflat s' n ! index_of 1 sw"
        using r2 by (simp add: unpermute_def lsw)
      also have "index_of 1 sw = 0" by (simp add: sw)
      finally have "unpermute sw (unflat s' n) ! 1 = unflat s' n ! 0" .
      then have "unpermute sw (unflat s' n) ! 1 < k" using hd that by simp
      with vs show "g b1 n = g b2 n" unfolding g_def using agree s_def by blast
    qed
    then show ?thesis using that by (simp add: take_drop_map_upt)
  qed
  have mem: "x < d \<and> x < k" if "x \<in> set (take k [0..<d])" for x
  proof (cases "k \<le> d")
    case True
    then have "take k [0..<d] = [0..<k]" by (simp add: take_upt)
    then show ?thesis using that True by simp
  next
    case False
    then show ?thesis using that by simp
  qed
  have "take k ys1 = take k ys2"
    unfolding ys1 ys2 take_map
    by (rule map_cong[OF refl]) (use slice mem in \<open>simp\<close>)
  moreover have "length ys1 = length ys2" by (simp add: ys1 ys2)
  ultimately show ?thesis by simp
qed

lemma exemplar_loop_take:
  assumes "length ys1 = length ys2"
    and "take (nat (shot_num - cnt)) ys1 = take (nat (shot_num - cnt)) ys2"
  shows "exemplar_loop m shot_num ys1 cnt N C y1 = exemplar_loop m shot_num ys2 cnt N C y1"
  using assms
proof (induction ys1 arbitrary: ys2 cnt N C y1)
  case Nil
  then show ?case by simp
next
  case (Cons yi ys)
  then obtain yi' ys' where ys2: "ys2 = yi' # ys'" by (cases ys2) auto
  show ?case
  proof (cases "cnt + 1 > shot_num")
    case True
    then show ?thesis by (simp add: ys2)
  next
    case False
    then have "nat (shot_num - cnt) = Suc (nat (shot_num - (cnt + 1)))" by simp
    with Cons.prems(2) have eq: "yi = yi'" "take (nat (shot_num - (cnt + 1))) ys = take (nat (shot_num - (cnt + 1))) ys'"
      by (simp_all add: ys2)
    have len: "length ys = length ys'" using Cons.prems(1) by (simp add: ys2)
    have "exemplar_loop m shot_num ys (cnt + 1) N' C' y1' = exemplar_loop m shot_num ys' (cnt + 1) N' C' y1'"
      for N' C' y1'
      using len eq(2) by (rule Cons.IH)
    then show ?thesis using False by (simp add: ys2 eq(1) Let_def)
  qed
qed

lemma exemplar_loop_first_shots:
  "exemplar_loop m shot_num ys cnt N C y1 =
   exemplar_loop m shot_num (take (nat (shot_num - cnt)) ys) cnt N C y1"
proof (induction ys arbitrary: cnt N C y1)
  case Nil
  then show ?case by simp
next
  case (Cons yi ys)
  show ?case
  proof (cases "cnt + 1 > shot_num")
    case True
    then have "nat (shot_num - cnt) = 0" by simp
    then show ?thesis using True by simp
  next
    case False
    then have n: "nat (shot_num - cnt) = Suc (nat (shot_num - (cnt + 1)))" by simp
    show ?thesis
      unfolding n take_Suc_Cons
      using False Cons.IH[of "cnt + 1"] by (simp add: Let_def)
  qed
qed

subsection \<open>Elements computed by the aggregator\<close>

lemma attn_summary_elem:
  assumes wf: "wf_tensor attn" and sh: "shape attn = [N, heads, shot_num * 64, shot_num * 64]"
  shows "\<exists>a. attn_summary N shot_num heads attn = Some a \<and> wf_tensor a \<and>
           shape a = [1, N, shot_num * 64, heads * 64] \<and>
           (\<forall>n < N. \<forall>q < shot_num * 64. \<forall>h < heads. \<forall>p < 64.
              elem a [0, n, q, h * 64 + p]
                = (\<Sum>s < shot_num. elem attn [n, h, q, s * 64 + p]) / real shot_num)"
proof -
  define Q where "Q = shot_num * 64"
  define a1 where "a1 = tabulate [N, Q, heads, Q] (\<lambda>j. elem attn (unpermute [0, 2, 1, 3] j))"
  have p1: "permute [0, 2, 1, 3] attn = Some a1"
    by (simp add: permute_eq sh a1_def Q_def)
  have e1: "elem a1 [n, q, h, k] = elem attn [n, h, q, k]" if "n < N" "q < Q" "h < heads" "k < Q" for n q h k
    using that by (simp add: a1_def elem_tabulate unpermute_def eval_nat_numeral)
  define a2 where "a2 = Tensor [N, shot_num * 8 * 8, heads, shot_num, 8 * 8] (data a1)"
  have p2: "reshape [N, shot_num * 8 * 8, heads, shot_num, 8 * 8] a1 = Some a2"
    by (simp add: a2_def a1_def reshape_eq Q_def)
  have e2: "elem a2 [n, q, h, s, p] = elem a1 [n, q, h, s * 64 + p]" for n q h s p
    by (simp add: a2_def elem_def a1_def Q_def algebra_simps)
  define a3 where "a3 = tabulate [N, Q, heads, 64]
      (\<lambda>j. sum_list (map (\<lambda>k. elem a2 (take 3 j @ k # drop 3 j)) [0..<shot_num]) / real shot_num)"
  have p3: "mean_dim 3 a2 = Some a3"
    by (simp add: mean_dim_def a2_def a3_def Q_def mult.commute)
  have e3: "elem a3 [n, q, h, p] = (\<Sum>s < shot_num. elem a2 [n, q, h, s, p]) / real shot_num"
    if "n < N" "q < Q" "h < heads" "p < 64" for n q h p
    using that by (simp add: a3_def elem_tabulate sum_list_upt)
  define a4 where "a4 = Tensor [N, Q, heads * 64] (data a3)"
  have p4: "flatten 2 3 a3 = Some a4"
    by (simp add: flatten_def a3_def a4_def)
  have e4: "elem a4 [n, q, h * 64 + p] = elem a3 [n, q, h, p]" for n q h p
    by (simp add: a4_def elem_def a3_def algebra_simps)
  have res: "attn_summary N shot_num heads attn = Some (unsqueeze0 a4)"
    using p1 p2 p3 p4 by (simp add: attn_summary_def)
  have wf4: "wf_tensor (unsqueeze0 a4)"
    by (simp add: unsqueeze0_def a4_def wf_tensor_def a3_def tabulate_def)
  have sh4: "shape (unsqueeze0 a4) = [1, N, shot_num * 64, heads * 64]"
    by (simp add: unsqueeze0_def a4_def Q_def)
  have e5: "elem (unsqueeze0 a4) [0, n, q, x] = elem a4 [n, q, x]" for n q x
    by (simp add: unsqueeze0_def elem_def a4_def)
  have el: "elem (unsqueeze0 a4) [0, n, q, h * 64 + p]
      = (\<Sum>s < shot_num. elem attn [n, h, q, s * 64 + p]) / real shot_num"
    if "n < N" "q < shot_num * 64" "h < heads" "p < 64" for n q h p
  proof -
    have k: "s * 64 + p < Q" if "s < shot_num" for s
    proof -
      have "s * 64 + p < s * 64 + 64" using \<open>p < 64\<close> by simp
      also have "\<dots> = (s + 1) * 64" by simp
      also have "\<dots> \<le> shot_num * 64" using that by (intro mult_le_mono1) simp
      finally show ?thesis by (simp add: Q_def)
    qed
    have "elem (unsqueeze0 a4) [0, n, q, h * 64 + p] = elem a3 [n, q, h, p]"
      by (simp only: e5 e4)
    also have "\<dots> = (\<Sum>s < shot_num. elem a2 [n, q, h, s, p]) / real shot_num"
      using that by (intro e3) (simp_all add: Q_def)
    also have "(\<Sum>s < shot_num. elem a2 [n, q, h, s, p]) = (\<Sum>s < shot_num. elem attn [n, h, q, s * 64 + p])"
    proof (rule sum.cong[OF refl])
      fix s assume "s \<in> {..<shot_num}"
      then have "s < shot_num" by simp
      then show "elem a2 [n, q, h, s, p] = elem attn [n, h, q, s * 64 + p]"
        using that k by (simp add: e2 e1 Q_def)
    qed
    finally show ?thesis .
  qed
  show ?thesis using res wf4 sh4 el by blast
qed

lemma weighted_pool_elem:
  assumes wa: "wf_tensor attns" and sa: "shape attns = [N, shot_num * 64, 1]"
    and wy: "wf_tensor y1" and sy: "shape y1 = [N, shot_num * 64, 512]"
  shows "\<exists>r. weighted_pool N shot_num attns y1 = Some r \<and> wf_tensor r \<and>
           shape r = [N * shot_num, 512] \<and>
           (\<forall>n < N. \<forall>s < shot_num. \<forall>c < 512.
              elem r [n * shot_num + s, c]
                = (\<Sum>k < 64. elem attns [n, s * 64 + k, 0] * elem y1 [n, s * 64 + k, c]) / 64 * 8 * 8
                  * (1 / (\<Sum>k < 64. elem attns [n, s * 64 + k, 0])))"
proof -
  define L where "L = shot_num * 64"
  define R where "R = N * shot_num"
  have L1: "L \<noteq> 1" by (auto simp: L_def)
  \<comment> \<open>\<open>y1 = attns * y1\<close>\<close>
  define m1 where "m1 = tabulate [N, L, 512]
     (\<lambda>j. elem attns (bidx [N, L, 1] j) * elem y1 (bidx [N, L, 512] j))"
  have bs: "broadcast_shape [N, L, 1] [N, L, 512] = Some [N, L, 512]"
    by (simp add: broadcast_shape_def)
  have p1: "mul attns y1 = Some m1"
    using mul_eq[of attns y1, unfolded sa sy L_def[symmetric], OF bs] by (simp add: m1_def)
  have e1: "elem m1 [n, l, c] = elem attns [n, l, 0] * elem y1 [n, l, c]"
    if "n < N" "l < L" "c < 512" for n l c
  proof -
    have "bidx [N, L, 1] [n, l, c] = [n, l, 0]" using that L1 by (auto simp: bidx_def)
    moreover have "bidx [N, L, 512] [n, l, c] = [n, l, c]" using that L1 by (auto simp: bidx_def)
    ultimately show ?thesis using that by (simp add: m1_def elem_tabulate)
  qed
  \<comment> \<open>\<open>y1.reshape(N * shot_num, 8, 8, 512)\<close>\<close>
  define r1 where "r1 = Tensor [R, 8, 8, 512] (data m1)"
  have p2: "reshape [N * shot_num, 8, 8, 512] m1 = Some r1"
    by (simp add: r1_def m1_def reshape_eq R_def L_def)
  have e2: "elem r1 [n * shot_num + s, i, j, c] = elem m1 [n, s * 64 + (i * 8 + j), c]" for n s i j c
    by (simp add: r1_def elem_def m1_def R_def L_def algebra_simps)
  \<comment> \<open>\<open>.permute(0, 3, 1, 2)\<close>\<close>
  define q1 where "q1 = tabulate [R, 512, 8, 8] (\<lambda>j. elem r1 (unpermute [0, 3, 1, 2] j))"
  have p3: "permute [0, 3, 1, 2] r1 = Some q1"
    by (simp add: permute_eq r1_def q1_def)
  have e3: "elem q1 [r, c, i, j] = elem r1 [r, i, j, c]" if "r < R" "c < 512" "i < 8" "j < 8" for r c i j
    using that by (simp add: q1_def elem_tabulate unpermute_def eval_nat_numeral)
  \<comment> \<open>\<open>self.pool(...)\<close>\<close>
  define pl where "pl = tabulate [R, 512, 1, 1]
     (\<lambda>j. sum_list (map (\<lambda>k. elem q1 [j ! 0, j ! 1, k div 8, k mod 8]) [0..<8 * 8]) / real (8 * 8))"
  have p4: "pool q1 = Some pl"
    by (simp add: pool_def AdaptiveAvgPool2d_1x1_def q1_def pl_def)
  have e4: "elem pl [r, c, 0, 0] = (\<Sum>k < 64. elem q1 [r, c, k div 8, k mod 8]) / 64"
    if "r < R" "c < 512" for r c
    using that by (simp add: pl_def elem_tabulate sum_list_upt)
  \<comment> \<open>\<open>.squeeze(-1).squeeze(-1)\<close>\<close>
  define sq where "sq = Tensor [R, 512] (data pl)"
  have p5: "squeeze_neg 1 pl = Some (Tensor [R, 512, 1] (data pl))"
    by (simp add: squeeze_neg_def pl_def Let_def)
  have p5': "squeeze_neg 1 (Tensor [R, 512, 1] (data pl)) = Some sq"
    by (simp add: squeeze_neg_def sq_def Let_def)
  have e5: "elem sq [r, c] = elem pl [r, c, 0, 0]" for r c
    by (simp add: sq_def elem_def pl_def)
  have lsq: "length (data sq) = R * 512" by (simp add: sq_def pl_def tabulate_def)
  \<comment> \<open>\<open>attns.reshape(N * shot_num, 8 * 8).sum(dim=1, keepdim=True)\<close>\<close>
  define a1 where "a1 = Tensor [R, 64] (data attns)"
  have p6: "reshape [N * shot_num, 8 * 8] attns = Some a1"
    using wa by (simp add: a1_def reshape_eq sa R_def)
  have e6: "elem a1 [n * shot_num + s, k] = elem attns [n, s * 64 + k, 0]" for n s k
    by (simp add: a1_def elem_def sa algebra_simps)
  define a2 where "a2 = tabulate [R, 1] (\<lambda>j. sum_list (map (\<lambda>k. elem a1 (j[1 := k])) [0..<64]))"
  have p7: "sum_dim_keep 1 a1 = Some a2"
    by (simp add: sum_dim_keep_def a1_def a2_def)
  have e7: "elem a2 [r, 0] = (\<Sum>k < 64. elem a1 [r, k])" if "r < R" for r
    using that by (simp add: a2_def elem_tabulate sum_list_upt)
  \<comment> \<open>\<open>1 / ...\<close> and \<open>torch.mul(y1 * 8 * 8, attns)\<close>\<close>
  define a3 where "a3 = scalar_div 1 a2"
  define z where "z = mul_scalar (mul_scalar sq 8) 8"
  have sa3: "shape a3 = [R, 1]" by (simp add: a3_def scalar_div_def a2_def)
  have sz: "shape z = [R, 512]" by (simp add: z_def mul_scalar_def sq_def)
  have ea3: "elem a3 [r, 0] = 1 / elem a2 [r, 0]" if "r < R" for r
    using that by (simp add: a3_def scalar_div_def elem_def a2_def tabulate_def)
  have ez: "elem z [r, c] = elem sq [r, c] * 8 * 8" if "r < R" "c < 512" for r c
  proof -
    have "r * 512 + c < R * 512" using row_cell_less(3)[OF that(1) that(1) that(2)] by simp
    then show ?thesis by (simp add: z_def mul_scalar_def elem_def sq_def lsq[unfolded sq_def, simplified])
  qed
  define res where "res = tabulate [R, 512] (\<lambda>j. elem z (bidx [R, 512] j) * elem a3 (bidx [R, 1] j))"
  have bs2: "broadcast_shape [R, 512] [R, 1] = Some [R, 512]"
    by (simp add: broadcast_shape_def)
  have p8: "mul z a3 = Some res"
    using mul_eq[of z a3, unfolded sz sa3, OF bs2] by (simp add: res_def)
  have e8: "elem res [r, c] = elem z [r, c] * elem a3 [r, 0]" if "r < R" "c < 512" for r c
  proof -
    have "bidx [R, 512] [r, c] = [r, c]" using that by (auto simp: bidx_def)
    moreover have "bidx [R, 1] [r, c] = [r, 0]" using that by (auto simp: bidx_def)
    ultimately show ?thesis using that by (simp add: res_def elem_tabulate)
  qed
  have run: "weighted_pool N shot_num attns y1 = Some res"
    using p1 p2 p3 p4 p5 p5' p6 p7 p8
    by (simp add: weighted_pool_def a3_def z_def)
  have val: "elem res [n * shot_num + s, c]
      = (\<Sum>k < 64. elem attns [n, s * 64 + k, 0] * elem y1 [n, s * 64 + k, c]) / 64 * 8 * 8
        * (1 / (\<Sum>k < 64. elem attns [n, s * 64 + k, 0]))"
    if "n < N" "s < shot_num" "c < 512" for n s c
  proof -
    have rR: "n * shot_num + s < R" unfolding R_def using that by (intro row_cell_less(2))
    have cell: "elem q1 [n * shot_num + s, c, k div 8, k mod 8]
        = elem attns [n, s * 64 + k, 0] * elem y1 [n, s * 64 + k, c]" if "k < 64" for k
    proof -
      have kk: "k div 8 < 8" "k mod 8 < 8" "k div 8 * 8 + k mod 8 = k" using that by simp_all
      have l: "s * 64 + k < L" unfolding L_def using \<open>s < shot_num\<close> that by (intro row_cell_less(3)[of s shot_num]) simp_all
      have "elem q1 [n * shot_num + s, c, k div 8, k mod 8] = elem r1 [n * shot_num + s, k div 8, k mod 8, c]"
        using rR \<open>c < 512\<close> kk by (intro e3)
      also have "\<dots> = elem m1 [n, s * 64 + k, c]" by (simp only: e2 kk)
      also have "\<dots> = elem attns [n, s * 64 + k, 0] * elem y1 [n, s * 64 + k, c]"
        using \<open>n < N\<close> l \<open>c < 512\<close> by (rule e1)
      finally show ?thesis .
    qed
    have "elem res [n * shot_num + s, c] = elem z [n * shot_num + s, c] * elem a3 [n * shot_num + s, 0]"
      using rR that by (intro e8)
    also have "elem z [n * shot_num + s, c] = elem pl [n * shot_num + s, c, 0, 0] * 8 * 8"
      using rR that by (simp add: ez e5)
    also have "elem pl [n * shot_num + s, c, 0, 0]
        = (\<Sum>k < 64. elem q1 [n * shot_num + s, c, k div 8, k mod 8]) / 64"
      using rR that by (intro e4)
    also have "(\<Sum>k < 64. elem q1 [n * shot_num + s, c, k div 8, k mod 8])
        = (\<Sum>k < 64. elem attns [n, s * 64 + k, 0] * elem y1 [n, s * 64 + k, c])"
      by (rule sum.cong[OF refl]) (simp add: cell)
    also have "elem a3 [n * shot_num + s, 0] = 1 / (\<Sum>k < 64. elem attns [n, s * 64 + k, 0])"
      using rR by (simp add: ea3 e7 e6)
    finally show ?thesis .
  qed
  have "wf_tensor res" "shape res = [N * shot_num, 512]" by (simp_all add: res_def R_def)
  with run val show ?thesis by blast
qed

lemma rows_to_sequence:
  assumes wp: "wf_tensor p" and sp: "shape p = [N * shot_num, C]"
  shows "\<exists>y. (reshape [shot_num, N, C] p \<bind> transpose_dims 0 1) = Some y \<and> wf_tensor y \<and>
           shape y = [N, shot_num, C] \<and>
           (\<forall>n < N. \<forall>s < shot_num. \<forall>c < C. elem y [n, s, c] = elem p [s * N + n, c])"
proof -
  define r where "r = Tensor [shot_num, N, C] (data p)"
  have p1: "reshape [shot_num, N, C] p = Some r"
    using wp by (simp add: reshape_eq sp r_def mult.commute)
  define y where "y = tabulate [N, shot_num, C] (\<lambda>j. elem r (unpermute [1, 0, 2] j))"
  have p2: "transpose_dims 0 1 r = Some y"
    by (simp add: transpose_dims_eq r_def y_def numeral_2_eq_2)
  have e: "elem y [n, s, c] = elem p [s * N + n, c]" if "n < N" "s < shot_num" "c < C" for n s c
  proof -
    have "elem y [n, s, c] = elem r [s, n, c]"
      using that by (simp add: y_def elem_tabulate unpermute_def)
    also have "\<dots> = elem p [s * N + n, c]"
      by (simp add: r_def elem_def sp algebra_simps)
    finally show ?thesis .
  qed
  have "(reshape [shot_num, N, C] p \<bind> transpose_dims 0 1) = Some y" using p1 p2 by simp
  moreover have "wf_tensor y" "shape y = [N, shot_num, C]" by (simp_all add: y_def)
  ultimately show ?thesis using e by blast
qed

subsection \<open>The concrete instance\<close>

lemma accepts_shape_layer: "accepts g (shape_layer g)"
  by (simp add: accepts_def shape_layer_def)

lemma accepts_cross_shape_cross: "accepts_cross width heads (shape_cross width heads)"
  by (simp add: accepts_cross_def shape_cross_def)

lemma accepts_cross_attn_shape_cross:
  "accepts_cross_attn width heads (shape_cross_attn width heads)"
  by (simp add: accepts_cross_attn_def shape_cross_attn_def)

lemma CrossAttention_shape_width:
  "\<not> (width_ok width sx \<and> width_ok width sy) \<Longrightarrow> CrossAttention_shape width heads sx sy = None"
  by (auto simp: CrossAttention_shape_def width_ok_def split: list.splits)

lemma rejects_width_shape_cross: "rejects_width width (shape_cross width heads)"
  unfolding rejects_width_def shape_cross_def
  by (auto simp: CrossAttention_shape_width simp del: not_None_eq)

lemma rejects_width_shape_cross_attn: "rejects_width width (shape_cross_attn width heads)"
  unfolding rejects_width_def shape_cross_attn_def
  by (auto simp: CrossAttention_shape_width)

lemma returns_channels_shape_layer: "returns_channels cout (shape_layer (Conv_shape cin cout))"
  by (auto simp: returns_channels_def shape_layer_def Conv_shape_def split: list.splits if_splits)

lemma interpolates_zero: "interpolates zero_interpolate"
  by (simp add: interpolates_def zero_interpolate_def accepts_shape_layer)

lemma constructed_zero_model: "constructed cfg (zero_model cfg)"
  by (simp add: constructed_def zero_model_def accepts_shape_layer accepts_cross_shape_cross
      accepts_cross_attn_shape_cross rejects_width_shape_cross rejects_width_shape_cross_attn
      returns_channels_shape_layer list_all_length)

subsection \<open>Shapes along the forward pass\<close>

lemma acceptsD:
  assumes "accepts g f" "wf_tensor t" "g (shape t) = Some s"
  obtains u where "f t = Some u" "wf_tensor u" "shape u = s"
  using assms unfolding accepts_def by blast

lemma accepts_crossD:
  assumes "accepts_cross width heads f" "wf_tensor x" "wf_tensor y"
    "CrossAttention_shape width heads (shape x) (shape y) = Some (sx, sa)"
  obtains u where "f x y = Some u" "wf_tensor u" "shape u = sx"
  using assms unfolding accepts_cross_def by blast

lemma accepts_cross_attnD:
  assumes "accepts_cross_attn width heads f" "wf_tensor x" "wf_tensor y"
    "CrossAttention_shape width heads (shape x) (shape y) = Some (sx, sa)"
  obtains u a where "f x y = Some (u, a)" "wf_tensor u" "shape u = sx" "wf_tensor a" "shape a = sa"
  using assms unfolding accepts_cross_attn_def by blast

lemma apply_blocks_shape:
  assumes "list_all (accepts (Block_shape d)) blks" "wf_tensor x" "shape x = [B, n, d]"
  shows "\<exists>u. apply_blocks blks x = Some u \<and> wf_tensor u \<and> shape u = [B, n, d]"
  using assms
proof (induction blks arbitrary: x)
  case Nil
  then show ?case by simp
next
  case (Cons blk blks)
  then have a: "accepts (Block_shape d) blk" and r: "list_all (accepts (Block_shape d)) blks" by simp_all
  have "Block_shape d (shape x) = Some [B, n, d]" using Cons.prems by (simp add: Block_shape_def)
  from acceptsD[OF a Cons.prems(2) this] obtain u where u: "blk x = Some u" "wf_tensor u" "shape u = [B, n, d]" .
  from Cons.IH[OF r u(2,3)] show ?case using u(1) by simp
qed

lemma forward_encoder_shape:
  assumes c: "constructed cfg m"
    and wi: "wf_tensor imgs"
    and si: "shape imgs = [B, cfg_in_chans cfg, cfg_img_size cfg, cfg_img_size cfg]"
  shows "\<exists>x. forward_encoder m imgs = Some x \<and> wf_tensor x \<and>
           shape x = [B, num_patches cfg, cfg_embed_dim cfg]"
proof -
  have "PatchEmbed_shape cfg (shape imgs) = Some [B, num_patches cfg, cfg_embed_dim cfg]"
    by (simp add: PatchEmbed_shape_def si)
  moreover have "accepts (PatchEmbed_shape cfg) (patch_embed m)" using c by (simp add: constructed_def)
  ultimately obtain x1 where x1: "patch_embed m imgs = Some x1" "wf_tensor x1"
      "shape x1 = [B, num_patches cfg, cfg_embed_dim cfg]"
    using wi by (auto elim: acceptsD)
  have "shape (pos_embed m) = [1, num_patches cfg, cfg_embed_dim cfg]" using c by (simp add: constructed_def)
  from add_row_shape[OF x1(2,3) this] obtain x2 where x2: "add x1 (pos_embed m) = Some x2" "wf_tensor x2"
      "shape x2 = [B, num_patches cfg, cfg_embed_dim cfg]" .
  have "list_all (accepts (Block_shape (cfg_embed_dim cfg))) (blocks m)" using c by (simp add: constructed_def)
  from apply_blocks_shape[OF this x2(2,3)] obtain x3 where x3: "apply_blocks (blocks m) x2 = Some x3"
      "wf_tensor x3" "shape x3 = [B, num_patches cfg, cfg_embed_dim cfg]" by blast
  have "LayerNorm_shape (cfg_embed_dim cfg) (shape x3) = Some [B, num_patches cfg, cfg_embed_dim cfg]"
    by (simp add: LayerNorm_shape_def x3(3))
  moreover have "accepts (LayerNorm_shape (cfg_embed_dim cfg)) (norm m)" using c by (simp add: constructed_def)
  ultimately obtain x4 where x4: "norm m x3 = Some x4" "wf_tensor x4"
      "shape x4 = [B, num_patches cfg, cfg_embed_dim cfg]"
    using x3(2) by (auto elim: acceptsD)
  show ?thesis using x1 x2 x3 x4 by (simp add: forward_encoder_def)
qed

lemma exemplar_cnn_shape:
  assumes c: "constructed cfg m" and w: "wf_tensor yi" and s: "shape yi = [B, 3, 64, 64]"
  shows "\<exists>u. (decoder_proj1 m yi \<bind> decoder_proj2 m \<bind> decoder_proj3 m \<bind> decoder_proj_final m) = Some u
           \<and> wf_tensor u \<and> shape u = [B, cfg_decoder_embed_dim cfg, 8, 8]"
proof -
  have a1: "accepts (ConvPool_shape 3 64) (decoder_proj1 m)"
    and a2: "accepts (ConvPool_shape 64 128) (decoder_proj2 m)"
    and a3: "accepts (ConvPool_shape 128 256) (decoder_proj3 m)"
    and a4: "accepts (Conv_shape 256 (cfg_decoder_embed_dim cfg)) (decoder_proj_final m)"
    using c by (simp_all add: constructed_def)
  have "ConvPool_shape 3 64 (shape yi) = Some [B, 64, 32, 32]" by (simp add: ConvPool_shape_def s)
  from acceptsD[OF a1 w this] obtain u1 where u1: "decoder_proj1 m yi = Some u1" "wf_tensor u1"
    "shape u1 = [B, 64, 32, 32]" .
  have "ConvPool_shape 64 128 (shape u1) = Some [B, 128, 16, 16]" by (simp add: ConvPool_shape_def u1)
  from acceptsD[OF a2 u1(2) this] obtain u2 where u2: "decoder_proj2 m u1 = Some u2" "wf_tensor u2"
    "shape u2 = [B, 128, 16, 16]" .
  have "ConvPool_shape 128 256 (shape u2) = Some [B, 256, 8, 8]" by (simp add: ConvPool_shape_def u2)
  from acceptsD[OF a3 u2(2) this] obtain u3 where u3: "decoder_proj3 m u2 = Some u3" "wf_tensor u3"
    "shape u3 = [B, 256, 8, 8]" .
  have "Conv_shape 256 (cfg_decoder_embed_dim cfg) (shape u3) = Some [B, cfg_decoder_embed_dim cfg, 8, 8]"
    by (simp add: Conv_shape_def u3)
  from acceptsD[OF a4 u3(2) this] obtain u4 where u4: "decoder_proj_final m u3 = Some u4" "wf_tensor u4"
    "shape u4 = [B, cfg_decoder_embed_dim cfg, 8, 8]" .
  show ?thesis using u1 u2 u3 u4 by simp
qed

lemma exemplar_loop_shape:
  assumes c: "constructed cfg m"
    and ys: "\<forall>yi \<in> set ys. wf_tensor yi \<and> shape yi = [B, 3, 64, 64]"
  shows "\<exists>zs. exemplar_loop m shot_num ys cnt N C acc
             = Some (acc @ zs, if zs = [] then N else B, if zs = [] then C else cfg_decoder_embed_dim cfg) \<and>
           length zs = min (nat (shot_num - cnt)) (length ys) \<and>
           (\<forall>z \<in> set zs. wf_tensor z \<and> shape z = [1, B, cfg_decoder_embed_dim cfg, 8, 8])"
  using ys
proof (induction ys arbitrary: cnt N C acc)
  case Nil
  then show ?case by simp
next
  case (Cons yi ys)
  show ?case
  proof (cases "cnt + 1 > shot_num")
    case True
    then show ?thesis by simp
  next
    case False
    have w: "wf_tensor yi" "shape yi = [B, 3, 64, 64]" using Cons.prems by simp_all
    from exemplar_cnn_shape[OF c w] obtain u where
      u: "(decoder_proj1 m yi \<bind> decoder_proj2 m \<bind> decoder_proj3 m \<bind> decoder_proj_final m) = Some u"
        "wf_tensor u" "shape u = [B, cfg_decoder_embed_dim cfg, 8, 8]" by blast
    have rest: "\<forall>yi \<in> set ys. wf_tensor yi \<and> shape yi = [B, 3, 64, 64]" using Cons.prems by simp
    from Cons.IH[OF rest, of "cnt + 1" B "cfg_decoder_embed_dim cfg" "acc @ [unsqueeze0 u]"]
    obtain zs where
      zs: "exemplar_loop m shot_num ys (cnt + 1) B (cfg_decoder_embed_dim cfg) (acc @ [unsqueeze0 u])
             = Some ((acc @ [unsqueeze0 u]) @ zs, if zs = [] then B else B,
                     if zs = [] then cfg_decoder_embed_dim cfg else cfg_decoder_embed_dim cfg)"
        "length zs = min (nat (shot_num - (cnt + 1))) (length ys)"
        "\<forall>z \<in> set zs. wf_tensor z \<and> shape z = [1, B, cfg_decoder_embed_dim cfg, 8, 8]"
      by blast
    have step: "exemplar_loop m shot_num (yi # ys) cnt N C acc
        = exemplar_loop m shot_num ys (cnt + 1) B (cfg_decoder_embed_dim cfg) (acc @ [unsqueeze0 u])"
      using False u by (auto simp: Let_def split: Option.bind_splits)
    have wu: "wf_tensor (unsqueeze0 u)" "shape (unsqueeze0 u) = [1, B, cfg_decoder_embed_dim cfg, 8, 8]"
      using u by (simp_all add: unsqueeze0_def wf_tensor_def)
    have n: "nat (shot_num - cnt) = Suc (nat (shot_num - (cnt + 1)))" using False by simp
    show ?thesis
      apply (rule exI[of _ "unsqueeze0 u # zs"])
      using step zs wu n by simp
  qed
qed

lemma exemplar_attend_shape:
  assumes blks: "list_all (accepts_cross_attn 512 heads) blks"
    and h: "0 < heads" "heads dvd 512"
    and y: "wf_tensor y1" "shape y1 = [B, k * 64, 512]"
  shows "\<exists>u as. exemplar_attend blks B k heads y1 acc = Some (u, acc @ as) \<and>
           wf_tensor u \<and> shape u = [B, k * 64, 512] \<and> length as = length blks \<and>
           (\<forall>a \<in> set as. wf_tensor a \<and> shape a = 1 # [B, k * 64, heads * 64])"
  using blks y
proof (induction blks arbitrary: y1 acc)
  case Nil
  then show ?case by simp
next
  case (Cons blk blks)
  then have a: "accepts_cross_attn 512 heads blk" and r: "list_all (accepts_cross_attn 512 heads) blks"
    by simp_all
  have "CrossAttention_shape 512 heads (shape y1) (shape y1)
      = Some ([B, k * 64, 512], [B, heads, k * 64, k * 64])"
    using h Cons.prems by (simp add: CrossAttention_shape_def)
  from accepts_cross_attnD[OF a Cons.prems(2) Cons.prems(2) this] obtain u sc where
    u: "blk y1 y1 = Some (u, sc)" "wf_tensor u" "shape u = [B, k * 64, 512]"
      "wf_tensor sc" "shape sc = [B, heads, k * 64, k * 64]" .
  from attn_summary_elem[OF u(4,5)] obtain s where
    s: "attn_summary B k heads sc = Some s" "wf_tensor s" "shape s = [1, B, k * 64, heads * 64]"
    by blast
  from Cons.IH[OF r u(2,3), of "acc @ [s]"] obtain u' as where
    r': "exemplar_attend blks B k heads u (acc @ [s]) = Some (u', (acc @ [s]) @ as)"
      "wf_tensor u'" "shape u' = [B, k * 64, 512]" "length as = length blks"
      "\<forall>a \<in> set as. wf_tensor a \<and> shape a = 1 # [B, k * 64, heads * 64]"
    by blast
  show ?case
    apply (rule exI[of _ u'], rule exI[of _ "s # as"])
    using u(1) s r' by simp
qed

lemma exemplar_aggregate_shape:
  assumes c: "constructed cfg m" and d: "cfg_decoder_embed_dim cfg = 512"
    and h: "0 < cfg_decoder_num_heads cfg" "cfg_decoder_num_heads cfg dvd 512"
    and cb: "0 < cfg_cross_blocks cfg"
    and ne: "y1 \<noteq> []" and all: "\<forall>z \<in> set y1. wf_tensor z \<and> shape z = [1, B, 512, 8, 8]"
  shows "\<exists>p. exemplar_aggregate m B (length y1) y1 = Some p \<and> wf_tensor p \<and>
           shape p = [B * length y1, 512]"
proof -
  define k where "k = length y1"
  define heads where "heads = cfg_decoder_num_heads cfg"
  have hm: "decoder_num_heads m = heads" using c by (simp add: constructed_def heads_def)
  from cat0_shape[OF ne] all obtain t1 where t1: "cat0 y1 = Some t1" "wf_tensor t1"
      "shape t1 = [k, B, 512, 8, 8]" unfolding k_def by blast
  define t2 where "t2 = tabulate [B, k, 8, 8, 512] (\<lambda>j. elem t1 (unpermute [1, 0, 3, 4, 2] j))"
  have p2: "permute [1, 0, 3, 4, 2] t1 = Some t2"
    by (simp add: permute_eq t1 t2_def)
  define t3 where "t3 = Tensor [B, k * 64, 512] (data t2)"
  have p3: "flatten 1 3 t2 = Some t3"
    by (simp add: flatten_def t2_def t3_def eval_nat_numeral)
  have w3: "wf_tensor t3" "shape t3 = [B, k * 64, 512]"
    by (simp_all add: t3_def t2_def wf_tensor_def tabulate_def)
  have blks: "list_all (accepts_cross_attn 512 heads) (exemplar_blocks m)"
    and lb: "length (exemplar_blocks m) = cfg_cross_blocks cfg"
    using c by (simp_all add: constructed_def heads_def)
  from exemplar_attend_shape[OF blks h[folded heads_def] w3, of "[]"] obtain u as where
    att: "exemplar_attend (exemplar_blocks m) B k heads t3 [] = Some (u, as)"
      "wf_tensor u" "shape u = [B, k * 64, 512]" "length as = length (exemplar_blocks m)"
      "\<forall>a \<in> set as. wf_tensor a \<and> shape a = 1 # [B, k * 64, heads * 64]"
    by auto
  have "accepts (LayerNorm_shape 512) (exemplar_norm m)" using c by (simp add: constructed_def)
  moreover have "LayerNorm_shape 512 (shape u) = Some [B, k * 64, 512]"
    by (simp add: LayerNorm_shape_def att(3))
  ultimately obtain v where v: "exemplar_norm m u = Some v" "wf_tensor v" "shape v = [B, k * 64, 512]"
    using att(2) by (auto elim: acceptsD)
  have "as \<noteq> []" using att(4) lb cb by auto
  from cat0_shape[OF this att(5)] obtain a1 where a1: "cat0 as = Some a1" "wf_tensor a1"
      "shape a1 = [length as, B, k * 64, heads * 64]" by blast
  have "accepts (Linear_shape (8 * 8 * heads) 1) (exemplar_weights m)"
    using c by (simp add: constructed_def heads_def)
  moreover have "Linear_shape (8 * 8 * heads) 1 (shape a1) = Some [length as, B, k * 64, 1]"
    by (simp add: Linear_shape_def a1(3))
  ultimately obtain a2 where a2: "exemplar_weights m a1 = Some a2" "wf_tensor a2"
      "shape a2 = [length as, B, k * 64, 1]"
    using a1(2) by (auto elim: acceptsD)
  define a3 where "a3 = tabulate [B, k * 64, 1]
     (\<lambda>j. sum_list (map (\<lambda>i. elem a2 (take 0 j @ i # drop 0 j)) [0..<length as]) / real (length as))"
  have p7: "mean_dim 0 a2 = Some a3"
    by (simp add: mean_dim_def a2(3) a3_def)
  have w7: "wf_tensor a3" "shape a3 = [B, k * 64, 1]" by (simp_all add: a3_def)
  from weighted_pool_elem[OF w7 v(2,3)] obtain p where
    p: "weighted_pool B k a3 v = Some p" "wf_tensor p" "shape p = [B * k, 512]" by blast
  have "exemplar_aggregate m B k y1 = Some p"
    using t1(1) p2 p3 att(1) v(1) a1(1) a2(1) p7 p(1) by (simp add: exemplar_aggregate_def hm)
  then show ?thesis using p(2,3) by (simp add: k_def)
qed

lemma apply_decoder_blocks_shape:
  assumes blks: "list_all (accepts_cross d heads) blks"
    and idx: "\<forall>i \<in> set idxs. i < length blks"
    and h: "0 < heads" "heads dvd d"
    and x: "wf_tensor x" "shape x = [B, n, d]"
    and y: "wf_tensor y" "shape y = [B, k, d]"
  shows "\<exists>u. apply_decoder_blocks blks idxs x y = Some u \<and> wf_tensor u \<and> shape u = [B, n, d]"
  using idx x
proof (induction idxs arbitrary: x)
  case Nil
  then show ?case by simp
next
  case (Cons i idxs)
  then have i: "i < length blks" by simp
  then have a: "accepts_cross d heads (blks ! i)" using blks by (simp add: list_all_length)
  have "CrossAttention_shape d heads (shape x) (shape y) = Some ([B, n, d], [B, heads, n, k])"
    using h Cons.prems y by (simp add: CrossAttention_shape_def)
  from accepts_crossD[OF a Cons.prems(2) y(1) this] obtain u where
    u: "(blks ! i) x y = Some u" "wf_tensor u" "shape u = [B, n, d]" .
  have "\<forall>i \<in> set idxs. i < length blks" using Cons.prems by simp
  from Cons.IH[OF this u(2,3)] show ?case using i u(1) by simp
qed

lemma upsample_stage_shape:
  assumes a: "accepts (Conv_shape cin cout) head" and f: "interpolates F_interpolate"
    and x: "wf_tensor x" "shape x = [B, cin, h, h]" and h: "0 < h"
  shows "\<exists>u. upsample_stage F_interpolate head x = Some u \<and> wf_tensor u \<and>
           shape u = [B, cout, 2 * h, 2 * h]"
proof -
  have "Conv_shape cin cout (shape x) = Some [B, cout, h, h]" using x h by (simp add: Conv_shape_def)
  from acceptsD[OF a x(1) this] obtain v where v: "head x = Some v" "wf_tensor v" "shape v = [B, cout, h, h]" .
  have fa: "accepts (interpolate_shape (h * 2)) (\<lambda>u. F_interpolate u (h * 2))"
    using f by (simp add: interpolates_def)
  have "interpolate_shape (h * 2) (shape v) = Some [B, cout, h * 2, h * 2]"
    using v h by (simp add: interpolate_shape_def)
  from acceptsD[OF fa v(2) this] obtain u where
    u: "F_interpolate v (h * 2) = Some u" "wf_tensor u" "shape u = [B, cout, h * 2, h * 2]" .
  show ?thesis using v(1) u x(2) by (simp add: upsample_stage_def mult.commute)
qed

lemma density_regression_shape:
  assumes c: "constructed cfg m" and f: "interpolates F_interpolate"
    and x: "wf_tensor x" "shape x = [B, g * g, cfg_decoder_embed_dim cfg]" and g: "0 < g"
  shows "\<exists>x0 x1 x2 x3 x4 dm.
           (transpose_dims 1 2 x \<bind> reshape [B, cfg_decoder_embed_dim cfg, g, g]) = Some x0 \<and>
           shape x0 = [B, cfg_decoder_embed_dim cfg, g, g] \<and>
           upsample_stage F_interpolate (decode_head0 m) x0 = Some x1 \<and> shape x1 = [B, 256, 2 * g, 2 * g] \<and>
           upsample_stage F_interpolate (decode_head1 m) x1 = Some x2 \<and> shape x2 = [B, 256, 4 * g, 4 * g] \<and>
           upsample_stage F_interpolate (decode_head2 m) x2 = Some x3 \<and> shape x3 = [B, 256, 8 * g, 8 * g] \<and>
           upsample_stage F_interpolate (decode_head3 m) x3 = Some x4 \<and> shape x4 = [B, 1, 16 * g, 16 * g] \<and>
           squeeze_neg 3 x4 = Some dm \<and> wf_tensor dm \<and> shape dm = [B, 16 * g, 16 * g] \<and>
           density_regression F_interpolate m x = Some dm"
proof -
  define D where "D = cfg_decoder_embed_dim cfg"
  have a0: "accepts (Conv_shape D 256) (decode_head0 m)"
    and a1: "accepts (Conv_shape 256 256) (decode_head1 m)"
    and a2: "accepts (Conv_shape 256 256) (decode_head2 m)"
    and a3: "accepts (Conv_shape 256 1) (decode_head3 m)"
    using c by (simp_all add: constructed_def D_def)
  from transpose12_shape3[OF x(2)] obtain xt where
    xt: "transpose_dims 1 2 x = Some xt" "wf_tensor xt" "shape xt = [B, D, g * g]"
    by (auto simp: D_def)
  define x0 where "x0 = Tensor [B, D, g, g] (data xt)"
  have r0: "reshape [B, D, g, g] xt = Some x0"
    using xt by (simp add: reshape_eq x0_def)
  have w0: "wf_tensor x0" "shape x0 = [B, D, g, g]"
    using xt by (simp_all add: x0_def wf_tensor_def)
  from upsample_stage_shape[OF a0 f w0 g] obtain x1 where
    x1: "upsample_stage F_interpolate (decode_head0 m) x0 = Some x1" "wf_tensor x1"
      "shape x1 = [B, 256, 2 * g, 2 * g]" by blast
  have g2: "0 < 2 * g" "0 < 2 * (2 * g)" "0 < 2 * (2 * (2 * g))" using g by simp_all
  from upsample_stage_shape[OF a1 f x1(2,3) g2(1)] obtain x2 where
    x2: "upsample_stage F_interpolate (decode_head1 m) x1 = Some x2" "wf_tensor x2"
      "shape x2 = [B, 256, 2 * (2 * g), 2 * (2 * g)]" by blast
  from upsample_stage_shape[OF a2 f x2(2,3) g2(2)] obtain x3 where
    x3: "upsample_stage F_interpolate (decode_head2 m) x2 = Some x3" "wf_tensor x3"
      "shape x3 = [B, 256, 2 * (2 * (2 * g)), 2 * (2 * (2 * g))]" by blast
  from upsample_stage_shape[OF a3 f x3(2,3) g2(3)] obtain x4 where
    x4: "upsample_stage F_interpolate (decode_head3 m) x3 = Some x4" "wf_tensor x4"
      "shape x4 = [B, 1, 2 * (2 * (2 * (2 * g))), 2 * (2 * (2 * (2 * g)))]" by blast
  define dm where "dm = Tensor [B, 16 * g, 16 * g] (data x4)"
  have sq: "squeeze_neg 3 x4 = Some dm"
    by (simp add: squeeze_neg_def x4(3) dm_def Let_def)
  have wd: "wf_tensor dm" "shape dm = [B, 16 * g, 16 * g]"
    using x4(2,3) by (simp_all add: dm_def wf_tensor_def)
  have run: "density_regression F_interpolate m x = Some dm"
    using xt(1) r0 x1(1) x2(1) x3(1) x4(1) sq by (simp add: density_regression_def x(2) D_def Let_def)
  have tr: "(transpose_dims 1 2 x \<bind> reshape [B, D, g, g]) = Some x0" using xt(1) r0 by simp
  show ?thesis
    using tr w0(2) x1(1,3) x2(1,3) x3(1,3) x4(1,3) sq wd run unfolding D_def
    by (intro exI[of _ x0] exI[of _ x1] exI[of _ x2] exI[of _ x3] exI[of _ x4] exI[of _ dm]) simp
qed

lemma exemplar_sequence_shape:
  assumes c: "constructed cfg m"
    and h: "0 < cfg_decoder_num_heads cfg" "cfg_decoder_num_heads cfg dvd 512"
    and pos: "shot_num \<le> 0 \<or> (cfg_decoder_embed_dim cfg = 512 \<and> 0 < cfg_cross_blocks cfg)"
    and yT: "shape yT = [S, B, 3, 64, 64]"
    and zs: "length zs = nat shot_num" "\<forall>z \<in> set zs. wf_tensor z \<and> shape z = [1, B, cfg_decoder_embed_dim cfg, 8, 8]"
  shows "\<exists>y k. exemplar_sequence m yT shot_num B (if zs = [] then C else cfg_decoder_embed_dim cfg) zs = Some y \<and>
           wf_tensor y \<and> shape y = [B, k, 512]"
proof (cases "shot_num \<le> 0")
  case True
  have tok: "wf_tensor (shot_token m)" "shape (shot_token m) = [512]" using c by (simp_all add: constructed_def)
  have "2 \<le> length (shape yT)" by (simp add: yT)
  from shot_token_sequence[OF tok this True] show ?thesis by (fastforce simp: yT)
next
  case False
  then have d: "cfg_decoder_embed_dim cfg = 512" and cb: "0 < cfg_cross_blocks cfg" using pos by auto
  have ne: "zs \<noteq> []" using zs(1) False by auto
  have all: "\<forall>z \<in> set zs. wf_tensor z \<and> shape z = [1, B, 512, 8, 8]" using zs(2) d by simp
  from exemplar_aggregate_shape[OF c d h cb ne all] obtain p where
    p: "exemplar_aggregate m B (nat shot_num) zs = Some p" "wf_tensor p" "shape p = [B * nat shot_num, 512]"
    using zs(1) by auto
  from rows_to_sequence[OF p(2,3)] obtain y where
    y: "(reshape [nat shot_num, B, 512] p \<bind> transpose_dims 0 1) = Some y" "wf_tensor y"
      "shape y = [B, nat shot_num, 512]" by blast
  have "exemplar_sequence m yT shot_num B 512 zs = Some y"
    using False p(1) y(1) by (simp add: exemplar_sequence_def)
  then show ?thesis using y(2,3) ne d by auto
qed

lemma decoder_tokens_shape:
  assumes c: "constructed cfg m"
    and h: "0 < cfg_decoder_num_heads cfg" "cfg_decoder_num_heads cfg dvd 512"
    and pos: "shot_num \<le> 0 \<or> (cfg_decoder_embed_dim cfg = 512 \<and> 0 < cfg_cross_blocks cfg)"
    and dep: "cfg_decoder_depth cfg = 0 \<or> cfg_decoder_embed_dim cfg = 512"
    and x: "wf_tensor x" "shape x = [B, num_patches cfg, cfg_embed_dim cfg]"
    and b: "wf_tensor boxes" "shape boxes = [B, S, 3, 64, 64]"
    and le: "shot_num \<le> int S"
  shows "\<exists>u. decoder_tokens m x boxes shot_num = Some u \<and> wf_tensor u \<and>
           shape u = [B, num_patches cfg, cfg_decoder_embed_dim cfg]"
proof -
  define D where "D = cfg_decoder_embed_dim cfg"
  define n where "n = num_patches cfg"
  have "accepts (Linear_shape (cfg_embed_dim cfg) D) (decoder_embed m)"
    using c by (simp add: constructed_def D_def)
  moreover have "Linear_shape (cfg_embed_dim cfg) D (shape x) = Some [B, n, D]"
    by (simp add: Linear_shape_def x(2) n_def)
  ultimately obtain x1 where x1: "decoder_embed m x = Some x1" "wf_tensor x1" "shape x1 = [B, n, D]"
    using x(1) by (auto elim: acceptsD)
  have "shape (decoder_pos_embed m) = [1, n, D]" using c by (simp add: constructed_def n_def D_def)
  from add_row_shape[OF x1(2,3) this] obtain x2 where
    x2: "add x1 (decoder_pos_embed m) = Some x2" "wf_tensor x2" "shape x2 = [B, n, D]" .
  from transpose01_shape5[OF b(2)] obtain yT where
    yT: "transpose_dims 0 1 boxes = Some yT" "wf_tensor yT" "shape yT = [S, B, 3, 64, 64]" by blast
  from unbind0_shape[OF yT(2,3)] obtain ys where
    ys: "unbind0 yT = Some ys" "length ys = S" "\<forall>y \<in> set ys. wf_tensor y \<and> shape y = [B, 3, 64, 64]"
    by blast
  from exemplar_loop_shape[OF c ys(3), of shot_num 0 B 0 "[]"] obtain zs where
    zs: "exemplar_loop m shot_num ys 0 B 0 [] = Some (zs, B, if zs = [] then 0 else D)"
      "length zs = min (nat shot_num) S"
      "\<forall>z \<in> set zs. wf_tensor z \<and> shape z = [1, B, D, 8, 8]"
    unfolding D_def using ys(2) by (auto split: if_splits)
  have lz: "length zs = nat shot_num" using zs(2) le by simp
  from exemplar_sequence_shape[OF c h pos yT(3) lz zs(3)[unfolded D_def], of 0] obtain y k where
    y: "exemplar_sequence m yT shot_num B (if zs = [] then 0 else D) zs = Some y" "wf_tensor y"
      "shape y = [B, k, 512]" unfolding D_def by blast
  have "\<exists>x3. apply_decoder_blocks (decoder_blocks m) [0..<decoder_depth m] x2 y = Some x3 \<and>
      wf_tensor x3 \<and> shape x3 = [B, n, D]"
  proof (cases "cfg_decoder_depth cfg = 0")
    case True
    then have "decoder_depth m = 0" using c by (simp add: constructed_def)
    then show ?thesis using x2 by simp
  next
    case False
    then have d: "D = 512" using dep by (simp add: D_def)
    have blks: "list_all (accepts_cross D (cfg_decoder_num_heads cfg)) (decoder_blocks m)"
      and idx: "\<forall>i \<in> set [0..<decoder_depth m]. i < length (decoder_blocks m)"
      using c by (simp_all add: constructed_def D_def)
    show ?thesis
      using apply_decoder_blocks_shape[OF blks idx h(1) h(2)[folded d] x2(2,3) y(2) y(3)[folded d]] .
  qed
  then obtain x3 where x3: "apply_decoder_blocks (decoder_blocks m) [0..<decoder_depth m] x2 y = Some x3"
    "wf_tensor x3" "shape x3 = [B, n, D]" by blast
  have "accepts (LayerNorm_shape D) (decoder_norm m)" using c by (simp add: constructed_def D_def)
  moreover have "LayerNorm_shape D (shape x3) = Some [B, n, D]" by (simp add: LayerNorm_shape_def x3(3))
  ultimately obtain x4 where x4: "decoder_norm m x3 = Some x4" "wf_tensor x4" "shape x4 = [B, n, D]"
    using x3(2) by (auto elim: acceptsD)
  have "decoder_tokens m x boxes shot_num = Some x4"
    using x1(1) x2(1) yT(1,3) ys(1) zs(1) y(1) x3(1) x4(1) by (simp add: decoder_tokens_def)
  then show ?thesis using x4(2,3) by (simp add: n_def D_def)
qed

lemma forward_shape:
  assumes c: "constructed cfg m" and f: "interpolates F_interpolate"
    and h: "0 < cfg_decoder_num_heads cfg" "cfg_decoder_num_heads cfg dvd 512"
    and pos: "shot_num \<le> 0 \<or> (cfg_decoder_embed_dim cfg = 512 \<and> 0 < cfg_cross_blocks cfg)"
    and dep: "cfg_decoder_depth cfg = 0 \<or> cfg_decoder_embed_dim cfg = 512"
    and g: "g = cfg_img_size cfg div cfg_patch_size cfg" "0 < g"
    and i: "wf_tensor imgs" "shape imgs = [B, cfg_in_chans cfg, cfg_img_size cfg, cfg_img_size cfg]"
    and b: "wf_tensor boxes" "shape boxes = [B, S, 3, 64, 64]"
    and le: "shot_num \<le> int S"
  shows "\<exists>x x0 x1 x2 x3 x4 dm.
           (forward_encoder m imgs \<bind> (\<lambda>latent. decoder_tokens m latent boxes shot_num)) = Some x \<and>
           shape x = [B, g * g, cfg_decoder_embed_dim cfg] \<and>
           (transpose_dims 1 2 x \<bind> reshape [B, cfg_decoder_embed_dim cfg, g, g]) = Some x0 \<and>
           shape x0 = [B, cfg_decoder_embed_dim cfg, g, g] \<and>
           upsample_stage F_interpolate (decode_head0 m) x0 = Some x1 \<and> shape x1 = [B, 256, 2 * g, 2 * g] \<and>
           upsample_stage F_interpolate (decode_head1 m) x1 = Some x2 \<and> shape x2 = [B, 256, 4 * g, 4 * g] \<and>
           upsample_stage F_interpolate (decode_head2 m) x2 = Some x3 \<and> shape x3 = [B, 256, 8 * g, 8 * g] \<and>
           upsample_stage F_interpolate (decode_head3 m) x3 = Some x4 \<and> shape x4 = [B, 1, 16 * g, 16 * g] \<and>
           squeeze_neg 3 x4 = Some dm \<and> wf_tensor dm \<and> shape dm = [B, 16 * g, 16 * g] \<and>
           forward F_interpolate m imgs boxes shot_num = Some dm"
proof -
  have np: "num_patches cfg = g * g" by (simp add: num_patches_def g(1))
  from forward_encoder_shape[OF c i] obtain latent where
    l: "forward_encoder m imgs = Some latent" "wf_tensor latent"
      "shape latent = [B, num_patches cfg, cfg_embed_dim cfg]" by blast
  from decoder_tokens_shape[OF c h pos dep l(2,3) b le] obtain x where
    x: "decoder_tokens m latent boxes shot_num = Some x" "wf_tensor x"
      "shape x = [B, g * g, cfg_decoder_embed_dim cfg]" unfolding np by blast
  from density_regression_shape[OF c f x(2,3) g(2)] obtain x0 x1 x2 x3 x4 dm where
    r: "(transpose_dims 1 2 x \<bind> reshape [B, cfg_decoder_embed_dim cfg, g, g]) = Some x0"
       "shape x0 = [B, cfg_decoder_embed_dim cfg, g, g]"
       "upsample_stage F_interpolate (decode_head0 m) x0 = Some x1" "shape x1 = [B, 256, 2 * g, 2 * g]"
       "upsample_stage F_interpolate (decode_head1 m) x1 = Some x2" "shape x2 = [B, 256, 4 * g, 4 * g]"
       "upsample_stage F_interpolate (decode_head2 m) x2 = Some x3" "shape x3 = [B, 256, 8 * g, 8 * g]"
       "upsample_stage F_interpolate (decode_head3 m) x3 = Some x4" "shape x4 = [B, 1, 16 * g, 16 * g]"
       "squeeze_neg 3 x4 = Some dm" "wf_tensor dm" "shape dm = [B, 16 * g, 16 * g]"
       "density_regression F_interpolate m x = Some dm"
    by blast
  have t: "(forward_encoder m imgs \<bind> (\<lambda>latent. decoder_tokens m latent boxes shot_num)) = Some x"
    using l(1) x(1) by simp
  have fw: "forward F_interpolate m imgs boxes shot_num = Some dm"
    using l(1) x(1) r(14) by (simp add: forward_def forward_decoder_def)
  show ?thesis
    by (intro exI[of _ x] exI[of _ x0] exI[of _ x1] exI[of _ x2] exI[of _ x3] exI[of _ x4] exI[of _ dm]
        conjI t x(3) r(1-13) fw)
qed

subsection \<open>Failure on a width other than 512\<close>

lemma exemplar_loop_channels:
  assumes r: "returns_channels D (decoder_proj_final m)"
    and run: "exemplar_loop m shot_num ys cnt N C acc = Some (y1, N', C')"
    and acc: "\<forall>z \<in> set acc. \<exists>n h w. shape z = [1, n, D, h, w]"
  shows "\<forall>z \<in> set y1. \<exists>n h w. shape z = [1, n, D, h, w]"
  using run acc
proof (induction ys arbitrary: cnt N C acc)
  case Nil
  then show ?case by simp
next
  case (Cons yi ys)
  show ?case
  proof (cases "cnt + 1 > shot_num")
    case True
    then show ?thesis using Cons.prems by simp
  next
    case False
    from Cons.prems(1) False obtain t v nn cc hh ww where
      v: "decoder_proj_final m t = Some v" "shape v = [nn, cc, hh, ww]"
        "exemplar_loop m shot_num ys (cnt + 1) nn cc (acc @ [unsqueeze0 v]) = Some (y1, N', C')"
      by (auto simp: Let_def split: Option.bind_splits list.splits)
    have "cc = D" using r v(1,2) unfolding returns_channels_def by blast
    then have "\<forall>z \<in> set (acc @ [unsqueeze0 v]). \<exists>n h w. shape z = [1, n, D, h, w]"
      using Cons.prems(2) v(2) by (auto simp: unsqueeze0_def)
    from Cons.IH[OF v(3) this] show ?thesis .
  qed
qed

lemma exemplar_attend_width:
  assumes rej: "list_all (rejects_width 512) blks"
    and w: "\<not> width_ok 512 (shape y1)"
    and run: "exemplar_attend blks N k heads y1 acc = Some (u, as)"
  shows "blks = [] \<and> as = acc"
proof (cases blks)
  case Nil
  then show ?thesis using run by simp
next
  case (Cons blk rest)
  then have "rejects_width 512 blk" using rej by simp
  then have "blk y1 y1 = None" using w unfolding rejects_width_def by blast
  then show ?thesis using run Cons by simp
qed

lemma exemplar_aggregate_width:
  assumes c: "constructed cfg m" and d: "cfg_decoder_embed_dim cfg \<noteq> 512"
    and y1: "\<forall>z \<in> set y1. \<exists>n h w. shape z = [1, n, cfg_decoder_embed_dim cfg, h, w]"
  shows "exemplar_aggregate m N k y1 = None"
proof (rule ccontr)
  assume "exemplar_aggregate m N k y1 \<noteq> None"
  then obtain t1 t2 t3 u as where
    s: "cat0 y1 = Some t1" "permute [1, 0, 3, 4, 2] t1 = Some t2" "flatten 1 3 t2 = Some t3"
      "exemplar_attend (exemplar_blocks m) N k (decoder_num_heads m) t3 [] = Some (u, as)"
    and a: "cat0 as \<noteq> None"
    by (auto simp: exemplar_aggregate_def split: Option.bind_splits)
  from cat0_Some_shape[OF s(1)] have ne: "y1 \<noteq> []"
    and s1: "shape t1 = sum_list (map (\<lambda>t. hd (shape t)) y1) # tl (shape (hd y1))" by simp_all
  from ne y1 obtain n h w where "shape (hd y1) = [1, n, cfg_decoder_embed_dim cfg, h, w]"
    by (cases y1) auto
  then obtain k' where t1: "shape t1 = [k', n, cfg_decoder_embed_dim cfg, h, w]" using s1 by simp
  from permute_Some[OF s(2)] have t2: "shape t2 = [n, k', h, w, cfg_decoder_embed_dim cfg]"
    by (simp add: t1)
  from s(3) have "shape t3 = [n, k' * h * w, cfg_decoder_embed_dim cfg]"
    by (auto simp: flatten_def t2 Let_def eval_nat_numeral)
  then have "\<not> width_ok 512 (shape t3)" using d by (simp add: width_ok_def)
  moreover have "list_all (rejects_width 512) (exemplar_blocks m)" using c by (simp add: constructed_def)
  ultimately have "as = []" using exemplar_attend_width s(4) by blast
  then show False using a by (simp add: cat0_def)
qed

lemma decoder_tokens_width:
  assumes c: "constructed cfg m" and d: "cfg_decoder_embed_dim cfg \<noteq> 512"
    and k: "1 \<le> shot_num \<or> 1 \<le> cfg_decoder_depth cfg"
  shows "decoder_tokens m x boxes shot_num = None"
proof (rule ccontr)
  assume "decoder_tokens m x boxes shot_num \<noteq> None"
  then obtain x2 yT ys y1 N C y x3 where
    s: "transpose_dims 0 1 boxes = Some yT" "unbind0 yT = Some ys"
      "exemplar_loop m shot_num ys 0 (shape yT ! 1) 0 [] = Some (y1, N, C)"
      "exemplar_sequence m yT shot_num N C y1 = Some y"
      "apply_decoder_blocks (decoder_blocks m) [0..<decoder_depth m] x2 y = Some x3"
    by (auto simp: decoder_tokens_def split: Option.bind_splits)
  show False
  proof (cases "0 < shot_num")
    case True
    have r: "returns_channels (cfg_decoder_embed_dim cfg) (decoder_proj_final m)"
      using c by (simp add: constructed_def)
    from exemplar_loop_channels[OF r s(3)]
    have "\<forall>z \<in> set y1. \<exists>n h w. shape z = [1, n, cfg_decoder_embed_dim cfg, h, w]" by simp
    from exemplar_aggregate_width[OF c d this] have "exemplar_aggregate m N (nat shot_num) y1 = None" .
    then show False using s(4) True by (simp add: exemplar_sequence_def)
  next
    case False
    then have dep: "1 \<le> cfg_decoder_depth cfg" using k by auto
    have tok: "shape (shot_token m) = [512]" using c by (simp add: constructed_def)
    from s(4) False obtain t where t: "repeat_rows (shape yT ! 1) (shot_token m) = Some t"
      "transpose_dims 0 1 (unsqueeze0 t) = Some y"
      by (auto simp: exemplar_sequence_def split: Option.bind_splits)
    from t(1) have "shape (unsqueeze0 t) = [1, shape yT ! 1, 512]"
      by (auto simp: repeat_rows_def tok unsqueeze0_def)
    with transpose_dims_Some[OF t(2)] have "shape y = [shape yT ! 1, 1, 512]"
      by (simp add: eval_nat_numeral upt_rec)
    then have w: "\<not> width_ok (cfg_decoder_embed_dim cfg) (shape y)" using d by (simp add: width_ok_def)
    have len: "length (decoder_blocks m) = cfg_decoder_depth cfg" "decoder_depth m = cfg_decoder_depth cfg"
      and rej: "list_all (rejects_width (cfg_decoder_embed_dim cfg)) (decoder_blocks m)"
      using c by (simp_all add: constructed_def)
    have "rejects_width (cfg_decoder_embed_dim cfg) (decoder_blocks m ! 0)"
      using rej len dep by (simp add: list_all_length)
    then have "(decoder_blocks m ! 0) x2 y = None" using w unfolding rejects_width_def by blast
    moreover have "[0..<decoder_depth m] = 0 # [1..<decoder_depth m]"
      using len dep by (simp add: upt_rec)
    ultimately show False using s(5) len dep by simp
  qed
qed

subsection \<open>Construction\<close>

lemma copy_into_same:
  assumes "wf_tensor src" "shape src = shape dst"
  shows "copy_into dst src = Some src"
proof -
  have "tabulate (shape src) (\<lambda>j. elem src (bidx (shape src) j)) = tabulate (shape src) (elem src)"
    by (rule tabulate_cong) (simp add: bidx_same)
  also have "\<dots> = src" using assms(1) by (rule tabulate_elem)
  finally have "tabulate (shape dst) (\<lambda>j. elem src (bidx (shape src) j)) = src"
    by (simp only: assms(2))
  then show ?thesis using assms(2) by (simp add: copy_into_def broadcast_shape_same)
qed

lemma initialize_weights_pos_embed:
  assumes "initialize_weights sincos cfg a = Some m1" "initialize_weights sincos cfg b = Some m2"
    and "pos_embed a = pos_embed b" "decoder_pos_embed a = decoder_pos_embed b"
  shows "pos_embed m1 = pos_embed m2 \<and> decoder_pos_embed m1 = decoder_pos_embed m2"
  using assms by (auto simp: initialize_weights_def split: Option.bind_splits if_splits)

lemma SupervisedMAE_pos_embed:
  assumes g: "num_patches cfg = g * g"
    and s: "sincos (cfg_embed_dim cfg) g = Some pe" "wf_tensor pe" "shape pe = [g * g, cfg_embed_dim cfg]"
    and d: "sincos (cfg_decoder_embed_dim cfg) g = Some dpe" "wf_tensor dpe"
      "shape dpe = [g * g, cfg_decoder_embed_dim cfg]"
  shows "SupervisedMAE sincos cfg rnd
     = Some (rnd\<lparr>pos_embed := unsqueeze0 pe, decoder_pos_embed := unsqueeze0 dpe,
               decoder_depth := cfg_decoder_depth cfg, decoder_num_heads := cfg_decoder_num_heads cfg\<rparr>)"
proof -
  have c1: "copy_into (zeros [1, g * g, cfg_embed_dim cfg]) (unsqueeze0 pe) = Some (unsqueeze0 pe)"
    using s by (intro copy_into_same) (simp_all add: unsqueeze0_def wf_tensor_def)
  have c2: "copy_into (zeros [1, g * g, cfg_decoder_embed_dim cfg]) (unsqueeze0 dpe) = Some (unsqueeze0 dpe)"
    using d by (intro copy_into_same) (simp_all add: unsqueeze0_def wf_tensor_def)
  show ?thesis
    using s(1) d(1) c1 c2 by (simp add: SupervisedMAE_def initialize_weights_def g)
qed

lemma nth_concat_uniform:
  assumes "\<forall>xs \<in> set xss. length xs = P" "s < length xss" "q < P"
  shows "concat xss ! (s * P + q) = xss ! s ! q"
  using assms
proof (induction xss arbitrary: s)
  case Nil
  then show ?case by simp
next
  case (Cons xs xss)
  then have len: "length xs = P" by simp
  show ?case
  proof (cases s)
    case 0
    then show ?thesis using Cons.prems len by (simp add: nth_append)
  next
    case (Suc s')
    then have "s' < length xss" using Cons.prems by simp
    from Cons.IH[OF _ this Cons.prems(3)] Cons.prems(1)
    have "concat xss ! (s' * P + q) = xss ! s' ! q" by simp
    then show ?thesis using Suc len by (simp add: nth_append)
  qed
qed

lemma exemplar_tokens_layout:
  assumes ne: "y1 \<noteq> []" and all: "\<forall>z \<in> set y1. wf_tensor z \<and> shape z = [1, B, C, 8, 8]"
  shows "\<exists>t. (cat0 y1 \<bind> permute [1, 0, 3, 4, 2] \<bind> flatten 1 3) = Some t \<and> wf_tensor t \<and>
           shape t = [B, length y1 * 64, C] \<and>
           (\<forall>n < B. \<forall>s < length y1. \<forall>i < 8. \<forall>j < 8. \<forall>c < C.
              elem t [n, s * 64 + (i * 8 + j), c] = elem (y1 ! s) [0, n, c, i, j])"
proof -
  define k where "k = length y1"
  define P where "P = B * (C * 64)"
  obtain z zs where y1: "y1 = z # zs" using ne by (cases y1) auto
  have hd1: "sum_list (map (\<lambda>u. hd (shape u)) y1) = k"
    unfolding k_def using all by (induction y1) simp_all
  have ok: "list_all (\<lambda>u. shape u \<noteq> [] \<and> tl (shape u) = tl (shape z)) y1"
    using all y1 by (simp add: list_all_iff)
  define t1 where "t1 = Tensor [k, B, C, 8, 8] (concat (map data y1))"
  have sz: "shape z = [1, B, C, 8, 8]" using all y1 by simp
  have c1: "cat0 y1 = Some t1"
    using ok hd1 sz by (simp add: cat0_def y1 t1_def)
  have lens: "\<forall>xs \<in> set (map data y1). length xs = P"
    using all by (auto simp: wf_tensor_def P_def)
  have e1: "elem t1 [s, n, c, i, j] = elem (y1 ! s) [0, n, c, i, j]"
    if "s < k" "n < B" "c < C" "i < 8" "j < 8" for s n c i j
  proof -
    define q where "q = n * (C * 64) + (c * 64 + (i * 8 + j))"
    have "valid [B, C, 8, 8] [n, c, i, j]" using that by simp
    from flat_less[OF this] have qP: "q < P" by (simp add: q_def P_def)
    have "elem t1 [s, n, c, i, j] = concat (map data y1) ! (s * P + q)"
      by (simp add: t1_def elem_def q_def P_def)
    also have "\<dots> = map data y1 ! s ! q"
      using lens that(1) qP by (intro nth_concat_uniform) (simp_all add: k_def)
    also have "\<dots> = data (y1 ! s) ! q" using that(1) by (simp add: k_def)
    also have "\<dots> = elem (y1 ! s) [0, n, c, i, j]"
    proof -
      have "shape (y1 ! s) = [1, B, C, 8, 8]" using all that(1) by (simp add: k_def)
      then show ?thesis by (simp add: elem_def q_def)
    qed
    finally show ?thesis .
  qed
  define t2 where "t2 = tabulate [B, k, 8, 8, C] (\<lambda>j. elem t1 (unpermute [1, 0, 3, 4, 2] j))"
  have c2: "permute [1, 0, 3, 4, 2] t1 = Some t2"
    by (simp add: permute_eq t1_def t2_def)
  have e2: "elem t2 [n, s, i, j, c] = elem t1 [s, n, c, i, j]"
    if "s < k" "n < B" "c < C" "i < 8" "j < 8" for s n c i j
    using that by (simp add: t2_def elem_tabulate unpermute_def eval_nat_numeral)
  define t3 where "t3 = Tensor [B, k * 64, C] (data t2)"
  have c3: "flatten 1 3 t2 = Some t3"
    by (simp add: flatten_def t2_def t3_def eval_nat_numeral)
  have e3: "elem t3 [n, s * 64 + (i * 8 + j), c] = elem t2 [n, s, i, j, c]" for n s i j c
    by (simp add: t3_def elem_def t2_def algebra_simps)
  have w3: "wf_tensor t3" "shape t3 = [B, k * 64, C]"
    by (simp_all add: t3_def t2_def wf_tensor_def tabulate_def)
  have run: "(cat0 y1 \<bind> permute [1, 0, 3, 4, 2] \<bind> flatten 1 3) = Some t3"
    using c1 c2 c3 by simp
  have "elem t3 [n, s * 64 + (i * 8 + j), c] = elem (y1 ! s) [0, n, c, i, j]"
    if "n < B" "s < k" "i < 8" "j < 8" "c < C" for n s i j c
    using that by (simp only: e3 e2 e1)
  with run w3 show ?thesis unfolding k_def by blast
qed

section \<open>The claims\<close>



text \<open>
  C2: with \<open>shot_num = 0\<close> the result of \<open>forward\<close> does not depend on the content of the
  exemplar crops: two calls on crop tensors of the same shape return the same result.
  The loop over the shots is left at its first test without applying a layer, and the
  decoder blocks receive the shot token repeated once per batch item, with a shot
  dimension of size 1.
\<close>

theorem forward_shot_zero_ignores_crops:
  assumes "shape boxes1 = shape boxes2"
  shows "forward F_interpolate m imgs boxes1 0 = forward F_interpolate m imgs boxes2 0 \<and>
         exemplar_loop m 0 ys 0 N C [] = Some ([], N, C) \<and>
         (wf_tensor (shot_token m) \<and> shape (shot_token m) = [d] \<and> 2 \<le> length (shape yT) \<longrightarrow>
            (\<exists>y. exemplar_sequence m yT 0 N C y1 = Some y \<and> shape y = [shape yT ! 1, 1, d] \<and>
                 (\<forall>n < shape yT ! 1. \<forall>c < d. elem y [n, 0, c] = elem (shot_token m) [c])))"
proof -
  have "forward_decoder F_interpolate m x boxes1 0 = forward_decoder F_interpolate m x boxes2 0" for x
    using assms
    by (simp add: forward_decoder_def decoder_tokens_def transpose_dims_eq unbind0_def exemplar_loop_no_shot
        exemplar_sequence_def split: list.splits)
  then have "forward F_interpolate m imgs boxes1 0 = forward F_interpolate m imgs boxes2 0"
    by (simp add: forward_def)
  moreover have "exemplar_loop m 0 ys 0 N C [] = Some ([], N, C)"
    by (simp add: exemplar_loop_no_shot)
  moreover have "\<exists>y. exemplar_sequence m yT 0 N C y1 = Some y \<and> shape y = [shape yT ! 1, 1, d] \<and>
      (\<forall>n < shape yT ! 1. \<forall>c < d. elem y [n, 0, c] = elem (shot_token m) [c])"
    if "wf_tensor (shot_token m)" "shape (shot_token m) = [d]" "2 \<le> length (shape yT)"
    using shot_token_sequence[OF that, of 0 N C y1] by auto
  ultimately show ?thesis by blast
qed

theorem forward_shot_zero_ignores_crops_witness:
  "shape (zeros [2, 3, 3, 64, 64]) = shape (Tensor [2, 3, 3, 64, 64] (replicate 73728 1)) \<and>
   wf_tensor (shot_token (zero_model mae_vit_base_patch16_dec512d8b)) \<and>
   shape (shot_token (zero_model mae_vit_base_patch16_dec512d8b)) = [512] \<and>
   2 \<le> length (shape (zeros [3, 2, 3, 64, 64])) \<and>
   forward zero_interpolate (zero_model mae_vit_base_patch16_dec512d8b) (zeros [2, 3, 384, 384])
     (zeros [2, 3, 3, 64, 64]) 0 =
   forward zero_interpolate (zero_model mae_vit_base_patch16_dec512d8b) (zeros [2, 3, 384, 384])
     (Tensor [2, 3, 3, 64, 64] (replicate 73728 1)) 0 \<and>
   (\<exists>y. exemplar_sequence (zero_model mae_vit_base_patch16_dec512d8b) (zeros [3, 2, 3, 64, 64]) 0 2 0 []
           = Some y \<and> shape y = [2, 1, 512] \<and>
        (\<forall>n < 2. \<forall>c < 512. elem y [n, 0, c] = elem (shot_token (zero_model mae_vit_base_patch16_dec512d8b)) [c]))"
proof -
  have s: "shape (zeros [2, 3, 3, 64, 64]) = shape (Tensor [2, 3, 3, 64, 64] (replicate 73728 1))"
    by simp
  have t: "wf_tensor (shot_token (zero_model mae_vit_base_patch16_dec512d8b)) \<and>
      shape (shot_token (zero_model mae_vit_base_patch16_dec512d8b)) = [512] \<and>
      2 \<le> length (shape (zeros [3, 2, 3, 64, 64]))"
    by (simp add: zero_model_def)
  show ?thesis
    using s t forward_shot_zero_ignores_crops[OF s, where F_interpolate = zero_interpolate
        and m = "zero_model mae_vit_base_patch16_dec512d8b" and imgs = "zeros [2, 3, 384, 384]"
        and d = 512 and yT = "zeros [3, 2, 3, 64, 64]" and N = 2 and C = 0 and ?y1.0 = "[]"
        and ys = "[]"]
    by simp
qed



text \<open>
  C4: the claim fails on the code.  The pooled rows are ordered by batch item first (row
  \<open>n * shot_num + s\<close> is the embedding of batch item \<open>n\<close>, shot \<open>s\<close>: \<open>weighted_pool_elem\<close>, on
  the tokens laid out as \<open>exemplar_tokens_layout\<close> says), but \<open>y1.reshape(shot_num, N, C)\<close>
  reads them as ordered by shot first, as the comment \<open>y [3,N,C]->[N,3,C]\<close> of the source
  expects, so that after the transposition the token of batch item \<open>n\<close>, shot \<open>s\<close> is row
  \<open>s * N + n\<close> (\<open>rows_to_sequence\<close>).  The theorem evaluates lines 196 to 215 for two batch
  items and two shots on the instance \<open>probe_model\<close>: the feature map of batch item \<open>n\<close>,
  shot \<open>s\<close> is constant \<open>10 * (n + 1) + s\<close>, and so is its pooled embedding.  The token
  handed to the decoder for batch item 0, shot 1 is 20, the embedding of batch item 1,
  shot 0 (its own is 11), and the token for batch item 1, shot 0 is 11, the embedding of
  batch item 0, shot 1.
\<close>

theorem exemplar_tokens_mixed_across_batch:
  "\<exists>y. exemplar_sequence probe_model (zeros [2, 2, 3, 64, 64]) 2 2 512
          [Tensor [1, 2, 512, 8, 8] (replicate 32768 10 @ replicate 32768 20),
           Tensor [1, 2, 512, 8, 8] (replicate 32768 11 @ replicate 32768 21)] = Some y \<and>
       shape y = [2, 2, 512] \<and> elem y [0, 1, 0] = 20 \<and> elem y [1, 0, 0] = 11"
proof -
  define F0 where "F0 = Tensor [1, 2, 512, 8, 8] (replicate 32768 10 @ replicate 32768 20)"
  define F1 where "F1 = Tensor [1, 2, 512, 8, 8] (replicate 32768 11 @ replicate 32768 21)"
  have wfF: "\<forall>z \<in> set [F0, F1]. wf_tensor z \<and> shape z = [1, 2, 512, 8, 8]"
    by (simp add: F0_def F1_def wf_tensor_def)
  from exemplar_tokens_layout[OF _ wfF] obtain t where
    t: "(cat0 [F0, F1] \<bind> permute [1, 0, 3, 4, 2] \<bind> flatten 1 3) = Some t" "wf_tensor t"
      "shape t = [2, 2 * 64, 512]"
    and et: "\<And>n s i j c. n < 2 \<Longrightarrow> s < 2 \<Longrightarrow> i < 8 \<Longrightarrow> j < 8 \<Longrightarrow> c < 512 \<Longrightarrow>
        elem t [n, s * 64 + (i * 8 + j), c] = elem ([F0, F1] ! s) [0, n, c, i, j]"
    by auto
  \<comment> \<open>the exemplar block, the norm and the gate of the probe\<close>
  have wz: "wf_tensor (zeros [2, 16, 128, 128])" "shape (zeros [2, 16, 128, 128]) = [2, 16, 2 * 64, 2 * 64]"
    by simp_all
  from attn_summary_elem[OF wz] obtain a where
    a: "attn_summary 2 2 16 (zeros [2, 16, 128, 128]) = Some a" "wf_tensor a"
      "shape a = [1, 2, 2 * 64, 16 * 64]" by blast
  from cat0_shape[of "[a]" "[2, 2 * 64, 16 * 64]"] a obtain a1 where a1: "cat0 [a] = Some a1" by auto
  define W4 where "W4 = Tensor [1, 2, 128, 1] (replicate 256 (1 / 2 :: real))"
  define w where "w = tabulate [2, 128, 1]
     (\<lambda>j. sum_list (map (\<lambda>i. elem W4 (take 0 j @ i # drop 0 j)) [0..<1]) / real 1)"
  have mw: "mean_dim 0 W4 = Some w" by (simp add: mean_dim_def W4_def w_def)
  have ww: "wf_tensor w" "shape w = [2, 2 * 64, 1]" by (simp_all add: w_def)
  have ew: "elem w [n, l, 0] = 1 / 2" if "n * 128 + l < 256" "n < 2" "l < 128" for n l
    using that by (simp add: w_def elem_tabulate) (simp add: elem_def W4_def)
  from weighted_pool_elem[OF ww t(2,3)] obtain p where
    p: "weighted_pool 2 2 w t = Some p" "wf_tensor p" "shape p = [2 * 2, 512]"
    and ep: "\<And>n s c. n < 2 \<Longrightarrow> s < 2 \<Longrightarrow> c < 512 \<Longrightarrow>
          elem p [n * 2 + s, c]
            = (\<Sum>k < 64. elem w [n, s * 64 + k, 0] * elem t [n, s * 64 + k, c]) / 64 * 8 * 8
              * (1 / (\<Sum>k < 64. elem w [n, s * 64 + k, 0]))"
    by blast
  have heads: "decoder_num_heads probe_model = 16"
    by (simp add: probe_model_def zero_model_def mae_vit_base_patch16_dec512d8b_def)
  have eb: "exemplar_blocks probe_model = [\<lambda>x y. Some (x, zeros [2, 16, 128, 128])]"
    and en: "exemplar_norm probe_model = Some"
    and eg: "exemplar_weights probe_model = (\<lambda>a. Some W4)"
    by (simp_all add: probe_model_def W4_def)
  from t(1) obtain c1 c2 where
    c: "cat0 [F0, F1] = Some c1" "permute [1, 0, 3, 4, 2] c1 = Some c2" "flatten 1 3 c2 = Some t"
    by (auto split: Option.bind_splits)
  have att: "exemplar_attend (exemplar_blocks probe_model) 2 2 16 t [] = Some (t, [a])"
    using a(1) by (simp add: eb)
  have agg: "exemplar_aggregate probe_model 2 2 [F0, F1] = Some p"
    using c att a1 mw p(1) by (simp add: exemplar_aggregate_def heads en eg)
  \<comment> \<open>the values\<close>
  have f1: "elem F1 [0, 0, 0, i, j] = 11" if "i < 8" "j < 8" for i j
    using that by (simp add: F1_def elem_def nth_append)
  have f0: "elem F0 [0, 1, 0, i, j] = 20" if "i < 8" "j < 8" for i j
    using that by (simp add: F0_def elem_def nth_append)
  have t01: "elem t [0, 64 + k, 0] = 11" if "k < 64" for k
  proof -
    have "elem t [0, 1 * 64 + (k div 8 * 8 + k mod 8), 0] = elem ([F0, F1] ! 1) [0, 0, 0, k div 8, k mod 8]"
      using that by (intro et) simp_all
    then show ?thesis using that f1[of "k div 8" "k mod 8"] by simp
  qed
  have t10: "elem t [1, k, 0] = 20" if "k < 64" for k
  proof -
    have "elem t [1, 0 * 64 + (k div 8 * 8 + k mod 8), 0] = elem ([F0, F1] ! 0) [0, 1, 0, k div 8, k mod 8]"
      using that by (intro et) simp_all
    then show ?thesis using that f0[of "k div 8" "k mod 8"] by simp
  qed
  have sw01: "(\<Sum>k < 64. elem w [0, 64 + k, 0]) = 32"
  proof -
    have "(\<Sum>k < 64. elem w [0, 64 + k, 0]) = (\<Sum>k < (64::nat). (1 / 2 :: real))"
      by (rule sum.cong[OF refl]) (simp add: ew del: One_nat_def)
    then show ?thesis by simp
  qed
  have sw10: "(\<Sum>k < 64. elem w [1, k, 0]) = 32"
  proof -
    have "(\<Sum>k < 64. elem w [1, k, 0]) = (\<Sum>k < (64::nat). (1 / 2 :: real))"
      by (rule sum.cong[OF refl]) (simp add: ew del: One_nat_def)
    then show ?thesis by simp
  qed
  have s01: "(\<Sum>k < 64. elem w [0, 64 + k, 0] * elem t [0, 64 + k, 0]) = 352"
  proof -
    have "(\<Sum>k < 64. elem w [0, 64 + k, 0] * elem t [0, 64 + k, 0]) = (\<Sum>k < (64::nat). (11 / 2 :: real))"
      by (rule sum.cong[OF refl]) (simp add: ew t01 del: One_nat_def)
    then show ?thesis by simp
  qed
  have s10: "(\<Sum>k < 64. elem w [1, k, 0] * elem t [1, k, 0]) = 640"
  proof -
    have "(\<Sum>k < 64. elem w [1, k, 0] * elem t [1, k, 0]) = (\<Sum>k < (64::nat). (10 :: real))"
      by (rule sum.cong[OF refl]) (simp add: ew t10 del: One_nat_def)
    then show ?thesis by simp
  qed
  have p01: "elem p [0 * 2 + 1, 0] = 11" using ep[of 0 1 0] sw01 s01 by simp
  have p10: "elem p [1 * 2 + 0, 0] = 20" using ep[of 1 0 0] sw10 s10 by simp
  from rows_to_sequence[OF p(2,3)] obtain y where
    y: "(reshape [2, 2, 512] p \<bind> transpose_dims 0 1) = Some y" "shape y = [2, 2, 512]"
    and ey: "\<And>n s c. n < 2 \<Longrightarrow> s < 2 \<Longrightarrow> c < 512 \<Longrightarrow> elem y [n, s, c] = elem p [s * 2 + n, c]"
    by blast
  have seq: "exemplar_sequence probe_model (zeros [2, 2, 3, 64, 64]) 2 2 512 [F0, F1] = Some y"
    using agg y(1) by (simp add: exemplar_sequence_def)
  have y01: "elem y [0, 1, 0] = 20" using ey[of 0 1 0] p10 by simp
  have y10: "elem y [1, 0, 0] = 11" using ey[of 1 0 0] p01 by simp
  show ?thesis
    using seq y(2) y01 y10 unfolding F0_def F1_def by blast
qed

text \<open>
  C5: from the gate weights \<open>attns\<close> of shape \<open>(N, shot_num * 64, 1)\<close> and the normalised
  tokens \<open>y1\<close> of shape \<open>(N, shot_num * 64, 512)\<close> the pooling step computes one row per
  batch item and shot; the row of batch item \<open>n\<close> and shot \<open>s\<close> is the weighted mean of the
  64 tokens of that shot: the sum over its cells of weight times token, divided by the
  sum of its weights.  The arithmetic is that of the real numbers, and the equation is
  stated for a shot whose weights do not sum to zero.
\<close>

theorem pooled_embedding_is_weighted_mean:
  assumes "wf_tensor attns" and "shape attns = [N, shot_num * 64, 1]"
    and "wf_tensor y1" and "shape y1 = [N, shot_num * 64, 512]"
  shows "\<exists>r. weighted_pool N shot_num attns y1 = Some r \<and> shape r = [N * shot_num, 512] \<and>
           (\<forall>n < N. \<forall>s < shot_num. \<forall>c < 512.
              (\<Sum>k < 64. elem attns [n, s * 64 + k, 0]) \<noteq> 0 \<longrightarrow>
              elem r [n * shot_num + s, c]
                = (\<Sum>k < 64. elem attns [n, s * 64 + k, 0] * elem y1 [n, s * 64 + k, c])
                  / (\<Sum>k < 64. elem attns [n, s * 64 + k, 0]))"
proof -
  from weighted_pool_elem[OF assms] obtain r where
    r: "weighted_pool N shot_num attns y1 = Some r" "shape r = [N * shot_num, 512]"
    and e: "\<And>n s c. n < N \<Longrightarrow> s < shot_num \<Longrightarrow> c < 512 \<Longrightarrow>
          elem r [n * shot_num + s, c]
            = (\<Sum>k < 64. elem attns [n, s * 64 + k, 0] * elem y1 [n, s * 64 + k, c]) / 64 * 8 * 8
              * (1 / (\<Sum>k < 64. elem attns [n, s * 64 + k, 0]))"
    by blast
  have "elem r [n * shot_num + s, c]
      = (\<Sum>k < 64. elem attns [n, s * 64 + k, 0] * elem y1 [n, s * 64 + k, c])
        / (\<Sum>k < 64. elem attns [n, s * 64 + k, 0])"
    if "n < N" "s < shot_num" "c < 512" for n s c
    using e[OF that] by simp
  with r show ?thesis by blast
qed

theorem pooled_embedding_is_weighted_mean_witness:
  "wf_tensor (Tensor [1, 64, 1] (replicate 64 (1 / 2))) \<and>
   shape (Tensor [1, 64, 1] (replicate 64 (1 / 2))) = [1, 1 * 64, 1] \<and>
   wf_tensor (Tensor [1, 64, 512] (replicate 32768 3)) \<and>
   shape (Tensor [1, 64, 512] (replicate 32768 3)) = [1, 1 * 64, 512] \<and>
   (\<Sum>k < 64. elem (Tensor [1, 64, 1] (replicate 64 (1 / 2))) [0, 0 * 64 + k, 0]) \<noteq> 0 \<and>
   (\<exists>r. weighted_pool 1 1 (Tensor [1, 64, 1] (replicate 64 (1 / 2))) (Tensor [1, 64, 512] (replicate 32768 3))
          = Some r \<and> shape r = [1, 512] \<and> elem r [0, 0] = 3)"
proof -
  let ?A = "Tensor [1, 64, 1] (replicate 64 (1 / 2))"
  let ?Y = "Tensor [1, 64, 512] (replicate 32768 3)"
  have h: "wf_tensor ?A" "shape ?A = [1, 1 * 64, 1]" "wf_tensor ?Y" "shape ?Y = [1, 1 * 64, 512]"
    by (simp_all add: wf_tensor_def)
  have a: "elem ?A [0, 0 * 64 + k, 0] = 1 / 2" if "k < 64" for k
    using that by (simp add: elem_def)
  have y: "elem ?Y [0, 0 * 64 + k, 0] = 3" if "k < 64" for k
    using that by (simp add: elem_def)
  have sa: "(\<Sum>k < 64. elem ?A [0, 0 * 64 + k, 0]) = 32"
  proof -
    have "(\<Sum>k < 64. elem ?A [0, 0 * 64 + k, 0]) = (\<Sum>k < (64::nat). (1 / 2 :: real))"
      by (rule sum.cong[OF refl]) (simp only: lessThan_iff a)
    then show ?thesis by simp
  qed
  have sy: "(\<Sum>k < 64. elem ?A [0, 0 * 64 + k, 0] * elem ?Y [0, 0 * 64 + k, 0]) = 96"
  proof -
    have "(\<Sum>k < 64. elem ?A [0, 0 * 64 + k, 0] * elem ?Y [0, 0 * 64 + k, 0])
        = (\<Sum>k < (64::nat). (3 / 2 :: real))"
    proof (rule sum.cong[OF refl])
      fix k :: nat assume "k \<in> {..<64}"
      then have k: "k < 64" by simp
      show "elem ?A [0, 0 * 64 + k, 0] * elem ?Y [0, 0 * 64 + k, 0] = 3 / 2"
        unfolding a[OF k] y[OF k] by simp
    qed
    then show ?thesis by simp
  qed
  from pooled_embedding_is_weighted_mean[OF h] obtain r where
    r: "weighted_pool 1 1 ?A ?Y = Some r" "shape r = [1 * 1, 512]"
    and e: "\<forall>n < 1. \<forall>s < 1. \<forall>c < 512.
          (\<Sum>k < 64. elem ?A [n, s * 64 + k, 0]) \<noteq> 0 \<longrightarrow>
          elem r [n * 1 + s, c]
            = (\<Sum>k < 64. elem ?A [n, s * 64 + k, 0] * elem ?Y [n, s * 64 + k, c])
              / (\<Sum>k < 64. elem ?A [n, s * 64 + k, 0])"
    by blast
  have nz: "(\<Sum>k < 64. elem ?A [0, 0 * 64 + k, 0]) \<noteq> 0" unfolding sa by simp
  have "elem r [0, 0] = 3" using e[rule_format, of 0 0 0] sa sy by simp
  with h nz r show ?thesis by auto
qed

text \<open>
  C6, as amended: the attention scores of one exemplar block, of shape
  \<open>(N, heads, shot_num * 64, shot_num * 64)\<close>, are averaged over the shots for each query
  token, each head and each of the 64 spatial positions of a key token; the 64 positions
  are kept, so the summary has shape \<open>(N, shot_num * 64, heads * 64)\<close>, behind the leading
  dimension of size 1 that the concatenation over the layers needs.  The claim gives the
  shape \<open>(N, shot_num * 64, heads)\<close>, which the counterexample refutes.
\<close>

theorem attn_summary_mean_over_shots:
  assumes "wf_tensor attn" and "shape attn = [N, heads, shot_num * 64, shot_num * 64]"
  shows "\<exists>a. attn_summary N shot_num heads attn = Some a \<and>
           shape a = [1, N, shot_num * 64, heads * 64] \<and>
           (\<forall>n < N. \<forall>q < shot_num * 64. \<forall>h < heads. \<forall>p < 64.
              elem a [0, n, q, h * 64 + p]
                = (\<Sum>s < shot_num. elem attn [n, h, q, s * 64 + p]) / real shot_num)"
  using attn_summary_elem[OF assms] by blast

theorem attn_summary_mean_over_shots_witness:
  "wf_tensor (zeros [1, 2, 64, 64]) \<and> shape (zeros [1, 2, 64, 64]) = [1, 2, 1 * 64, 1 * 64] \<and>
   (\<exists>a. attn_summary 1 1 2 (zeros [1, 2, 64, 64]) = Some a \<and> shape a = [1, 1, 64, 128])"
proof -
  have h: "wf_tensor (zeros [1, 2, 64, 64])" "shape (zeros [1, 2, 64, 64]) = [1, 2, 1 * 64, 1 * 64]"
    by simp_all
  from attn_summary_mean_over_shots[OF h] h show ?thesis by auto
qed

theorem attn_summary_shape_counterexample:
  "\<exists>a. attn_summary 1 1 2 (zeros [1, 2, 64, 64]) = Some a \<and>
       shape a = [1, 1, 64, 128] \<and> shape a \<noteq> [1, 64, 2] \<and> tl (shape a) \<noteq> [1, 64, 2]"
proof -
  have h: "wf_tensor (zeros [1, 2, 64, 64])" "shape (zeros [1, 2, 64, 64]) = [1, 2, 1 * 64, 1 * 64]"
    by simp_all
  from attn_summary_elem[OF h] show ?thesis by auto
qed



text \<open>
  C8: the branch \<open>decoder_proj4\<close> is built but never applied by the forward pass: for
  every instance and every input, \<open>forward\<close> returns the same result (or fails alike)
  whatever function stands for \<open>decoder_proj4\<close>, so the output does not depend on its
  parameters and equals that of a variant of the model without the branch.
\<close>

theorem forward_ignores_decoder_proj4:
  "forward F_interpolate (m\<lparr>decoder_proj4 := f\<rparr>) imgs boxes shot_num =
   forward F_interpolate m imgs boxes shot_num"
  by (simp add: forward_def forward_encoder_proj4 forward_decoder_proj4)

theorem forward_ignores_decoder_proj4_witness:
  "forward zero_interpolate ((zero_model mae_vit_base_patch16_dec512d8b)\<lparr>decoder_proj4 := (\<lambda>t. None)\<rparr>)
     (zeros [1, 3, 384, 384]) (zeros [1, 3, 3, 64, 64]) 3 =
   forward zero_interpolate (zero_model mae_vit_base_patch16_dec512d8b)
     (zeros [1, 3, 384, 384]) (zeros [1, 3, 3, 64, 64]) 3"
  by (rule forward_ignores_decoder_proj4)




end
